theory Spec2Isabelle
  imports Main "HOL-Library.Sublist" "HOL-Library.Multiset"
begin

section \<open>sandbox\_fs.c: an LD\_PRELOAD shim that blocks filesystem paths\<close>

text \<open>
  A shallow embedding of \<^verbatim>\<open>sandbox_fs.c\<close>. C strings are \<open>string\<close>s (the terminating
  NUL is implicit, a \<open>NULL\<close> pointer is \<open>None\<close>), the static variables of the library
  are the record \<open>config\<close>, and everything the library asks of the process it is loaded into
  (environment variables, the working directory, allocation, the next definitions of
  \<^verbatim>\<open>realpath\<close> and \<^verbatim>\<open>readlink\<close>) is the record \<open>host\<close>. \<^verbatim>\<open>DEBUG_LOG\<close> only
  writes to the standard error stream and is left out.
\<close>

subsection \<open>Constants\<close>

definition MAX_BLOCKED_PATHS :: nat where
  "MAX_BLOCKED_PATHS = 64"

definition DEFAULT_BLOCKED_PATHS :: string where
  "DEFAULT_BLOCKED_PATHS = ''/app:/.apps_data''"

text \<open>The values of \<^verbatim>\<open><limits.h>\<close>, \<^verbatim>\<open><fcntl.h>\<close> and \<^verbatim>\<open><errno.h>\<close> on Linux.\<close>

definition PATH_MAX :: nat where
  "PATH_MAX = 4096"

definition AT_FDCWD :: int where
  "AT_FDCWD = - 100"

definition EACCES :: int where
  "EACCES = 13"

subsection \<open>State of the library and of its host\<close>

record config =
  blocked_paths :: "string list"
  debug_enabled :: bool
  initialized :: bool
  init_failed :: bool
  init_once :: bool

text \<open>
  \<open>blocked_paths\<close> holds the first \<^verbatim>\<open>blocked_paths_count\<close> entries of the static array,
  so the count is its length. \<open>init_once\<close> is the \<^verbatim>\<open>pthread_once_t\<close>: true once the
  initialisation routine has run.
\<close>

definition config0 :: config where
  "config0 = \<lparr>blocked_paths = [], debug_enabled = False, initialized = False,
     init_failed = False, init_once = False\<rparr>"

record host =
  env_SANDBOX_DEBUG :: "string option"
  env_SANDBOX_BLOCKED_PATHS :: "string option"
  paths_strdup_ok :: bool
  token_strdup_ok :: "nat \<Rightarrow> bool"
  work_strdup_ok :: bool
  cwd :: "string option"
  next_realpath :: "(string \<Rightarrow> string option) option"
  next_readlink :: "(string \<Rightarrow> string option) option"

text \<open>
  \<open>paths_strdup_ok\<close>: whether \<^verbatim>\<open>strdup(paths)\<close> in \<^verbatim>\<open>init_blocked_paths\<close> succeeds;
  \<open>token_strdup_ok i\<close>: whether \<^verbatim>\<open>strdup(token)\<close> succeeds for the \<open>i\<close>-th token of the
  list (counted from 0); \<open>work_strdup_ok\<close>: whether \<^verbatim>\<open>strdup(absolute)\<close> in
  \<^verbatim>\<open>normalize_path\<close> succeeds. \<open>cwd\<close> is the working directory, \<open>None\<close> when the
  kernel cannot name it. \<open>next_realpath\<close> and \<open>next_readlink\<close> are what
  \<^verbatim>\<open>dlsym(RTLD_NEXT, ...)\<close> finds: \<open>None\<close> when the lookup returns \<open>NULL\<close>, otherwise the
  function, which gives \<open>None\<close> when the call fails.
\<close>

subsection \<open>C library functions\<close>

text \<open>
  \<^verbatim>\<open>strtok_r(s, d, &saveptr)\<close> for a single delimiter: skip leading delimiters; at the end
  of the string return \<open>NULL\<close>; otherwise the token runs to the next delimiter, which is
  overwritten by NUL, and \<open>saveptr\<close> is what follows it.
\<close>

definition strtok_r :: "char \<Rightarrow> string \<Rightarrow> (string \<times> string) option" where
  "strtok_r d s =
     (let s1 = dropWhile (\<lambda>c. c = d) s in
      if s1 = [] then None
      else Some (takeWhile (\<lambda>c. c \<noteq> d) s1, drop 1 (dropWhile (\<lambda>c. c \<noteq> d) s1)))"

lemma strtok_r_shorter: "strtok_r d s = Some (tok, saveptr) \<Longrightarrow> length saveptr < length s"
proof -
  assume a: "strtok_r d s = Some (tok, saveptr)"
  define s1 where "s1 = dropWhile (\<lambda>c. c = d) s"
  from a have ne: "s1 \<noteq> []" and sp: "saveptr = drop 1 (dropWhile (\<lambda>c. c \<noteq> d) s1)"
    by (auto simp: strtok_r_def s1_def Let_def split: if_splits)
  have l1: "length s1 \<le> length s"
    unfolding s1_def by (rule length_dropWhile_le)
  have "length (dropWhile (\<lambda>c. c \<noteq> d) s1) \<le> length s1"
    by (rule length_dropWhile_le)
  with ne have "length saveptr < length s1"
    unfolding sp by (cases s1) (auto simp: le_Suc_eq)
  with l1 show ?thesis by simp
qed

text \<open>The tokens that successive calls of \<^verbatim>\<open>strtok_r\<close> return until it returns \<open>NULL\<close>.\<close>

function strtok_all :: "char \<Rightarrow> string \<Rightarrow> string list" where
  "strtok_all d s =
     (case strtok_r d s of
        None \<Rightarrow> []
      | Some (tok, saveptr) \<Rightarrow> tok # strtok_all d saveptr)"
  by pat_completeness auto
termination
  by (relation "measure (\<lambda>(d, s). length s)") (auto dest: strtok_r_shorter)

declare strtok_all.simps [simp del]

text \<open>
  \<^verbatim>\<open>strncmp(a, b, n) == 0\<close>: the first \<open>n\<close> characters agree, the comparison stopping at a
  NUL that both strings have at the same place.
\<close>

fun strncmp_eq :: "string \<Rightarrow> string \<Rightarrow> nat \<Rightarrow> bool" where
  "strncmp_eq a b 0 = True"
| "strncmp_eq [] [] (Suc n) = True"
| "strncmp_eq [] (y # ys) (Suc n) = False"
| "strncmp_eq (x # xs) [] (Suc n) = False"
| "strncmp_eq (x # xs) (y # ys) (Suc n) = (x = y \<and> strncmp_eq xs ys n)"

text \<open>
  \<open>s[i]\<close> for \<open>i\<close> up to the length of \<open>s\<close>: the character, or \<open>None\<close> for the
  terminating NUL. No index beyond the terminator is read anywhere.
\<close>

definition char_at :: "string \<Rightarrow> nat \<Rightarrow> char option" where
  "char_at s i = (if i < length s then Some (s ! i) else None)"

text \<open>
  \<^verbatim>\<open>strrchr(s, c)\<close>: the index of the last \<open>c\<close> in \<open>s\<close>, \<open>None\<close> for \<open>NULL\<close>.
\<close>

definition strrchr :: "string \<Rightarrow> char \<Rightarrow> nat option" where
  "strrchr s c =
     (if c \<in> set s then Some (length s - 1 - length (takeWhile (\<lambda>x. x \<noteq> c) (rev s)))
      else None)"

text \<open>
  \<^verbatim>\<open>getcwd(buf, n)\<close>: fails when the working directory cannot be named or does not
  fit the buffer with its NUL.
\<close>

definition getcwd :: "host \<Rightarrow> nat \<Rightarrow> string option" where
  "getcwd h n =
     (case cwd h of
        None \<Rightarrow> None
      | Some d \<Rightarrow> if length d + 1 \<le> n then Some d else None)"

subsection \<open>Initialization\<close>

text \<open>
  The body of the token loop of \<^verbatim>\<open>init_blocked_paths\<close> trims in place:
  \<^verbatim>\<open>while (*token == ' ') token++;\<close> drops leading spaces, and the two loops
  \<^verbatim>\<open>while (end > token && *end == c) *end-- = '\0';\<close> drop trailing \<open>c\<close>s, first for the
  space and then for the slash, but never the first character (\<open>end > token\<close>).
\<close>

definition strip_trailing :: "char \<Rightarrow> string \<Rightarrow> string" where
  "strip_trailing ch s =
     (case s of
        [] \<Rightarrow> []
      | x # xs \<Rightarrow> x # rev (dropWhile (\<lambda>c. c = ch) (rev xs)))"

definition trim_token :: "string \<Rightarrow> string" where
  "trim_token token =
     strip_trailing CHR ''/'' (strip_trailing CHR '' '' (dropWhile (\<lambda>c. c = CHR '' '') token))"

text \<open>
  \<^verbatim>\<open>while (token && blocked_paths_count < MAX_BLOCKED_PATHS)\<close>, over the tokens still to
  come; \<open>i\<close> is the index of the current token and \<open>bp\<close> the entries stored so far. An
  entry whose \<^verbatim>\<open>strdup\<close> fails is not counted.
\<close>

fun init_loop :: "host \<Rightarrow> nat \<Rightarrow> string list \<Rightarrow> string list \<Rightarrow> string list" where
  "init_loop h i [] bp = bp"
| "init_loop h i (token # rest) bp =
     (if length bp < MAX_BLOCKED_PATHS then
        (let t = trim_token token in
         if length t > 0 then
           (if token_strdup_ok h i then init_loop h (Suc i) rest (bp @ [t])
            else init_loop h (Suc i) rest bp)
         else init_loop h (Suc i) rest bp)
      else bp)"

definition init_blocked_paths :: "host \<Rightarrow> config \<Rightarrow> config" where
  "init_blocked_paths h c =
     (if initialized c then c
      else
        (let c1 = c\<lparr>debug_enabled := (env_SANDBOX_DEBUG h = Some ''1'')\<rparr>;
             paths = (case env_SANDBOX_BLOCKED_PATHS h of
                        Some p \<Rightarrow> p
                      | None \<Rightarrow> DEFAULT_BLOCKED_PATHS)
         in if paths_strdup_ok h then
              c1\<lparr>blocked_paths := init_loop h 0 (strtok_all CHR '':'' paths) (blocked_paths c1),
                 initialized := True\<rparr>
            else c1\<lparr>init_failed := True\<rparr>))"

text \<open>\<^verbatim>\<open>pthread_once(&init_once, init_blocked_paths)\<close>.\<close>

definition ensure_initialized :: "host \<Rightarrow> config \<Rightarrow> config" where
  "ensure_initialized h c =
     (if init_once c then c else (init_blocked_paths h c)\<lparr>init_once := True\<rparr>)"

subsection \<open>Path checking logic\<close>

text \<open>
  The first part of \<^verbatim>\<open>normalize_path\<close>: the buffer \<^verbatim>\<open>absolute\<close>, or \<open>None\<close> where the
  function returns \<open>NULL\<close>. A path that does not start with a slash (the empty path too)
  is put behind the working directory.
\<close>

definition make_absolute :: "host \<Rightarrow> string \<Rightarrow> string option" where
  "make_absolute h path =
     (if char_at path 0 \<noteq> Some CHR ''/'' then
        (case getcwd h PATH_MAX of
           None \<Rightarrow> None
         | Some d \<Rightarrow>
             if length d + 1 + length path \<ge> PATH_MAX then None
             else Some (d @ ''/'' @ path))
      else if length path \<ge> PATH_MAX then None
      else Some path)"

text \<open>
  The component loop: \<open>comps\<close> is \<^verbatim>\<open>components[0..num_components)\<close>. A path accepted by
  \<open>make_absolute\<close> is shorter than \<open>PATH_MAX\<close>, so it has fewer than \<open>PATH_MAX / 2\<close>
  components and the array is never overrun.
\<close>

fun walk_components :: "string list \<Rightarrow> string list \<Rightarrow> string list" where
  "walk_components [] comps = comps"
| "walk_components (token # rest) comps =
     (if token = ''.'' then walk_components rest comps
      else if token = ''..'' then
        (if length comps > 0 then walk_components rest (butlast comps)
         else walk_components rest comps)
      else if length token > 0 then walk_components rest (comps @ [token])
      else walk_components rest comps)"

text \<open>The rebuild loop: \<open>resolved\<close> grows by a slash and a component, within the buffer.\<close>

fun rebuild_path :: "nat \<Rightarrow> string list \<Rightarrow> string \<Rightarrow> string option" where
  "rebuild_path resolved_size [] resolved = Some resolved"
| "rebuild_path resolved_size (component # rest) resolved =
     (if length resolved + 1 + length component \<ge> resolved_size then None
      else rebuild_path resolved_size rest (resolved @ ''/'' @ component))"

definition normalize_path :: "host \<Rightarrow> string option \<Rightarrow> nat \<Rightarrow> string option" where
  "normalize_path h path resolved_size =
     (case path of
        None \<Rightarrow> None
      | Some p \<Rightarrow>
          if resolved_size = 0 then None
          else
            (case make_absolute h p of
               None \<Rightarrow> None
             | Some absolute \<Rightarrow>
                 if work_strdup_ok h then
                   (case rebuild_path resolved_size
                           (walk_components (strtok_all CHR ''/'' absolute) []) [] of
                      None \<Rightarrow> None
                    | Some resolved \<Rightarrow> Some (if resolved = [] then ''/'' else resolved))
                 else None))"

text \<open>
  The test every loop over the list makes:
  \<^verbatim>\<open>strncmp(p, blocked, blocked_len) == 0 && (p[blocked_len] == '\0' || p[blocked_len] == '/')\<close>.
\<close>

definition entry_blocks :: "string \<Rightarrow> string \<Rightarrow> bool" where
  "entry_blocks blocked p =
     (if strncmp_eq p blocked (length blocked) then
        (char_at p (length blocked) = None \<or> char_at p (length blocked) = Some CHR ''/'')
      else False)"

fun check_blocked_paths :: "string list \<Rightarrow> string \<Rightarrow> bool" where
  "check_blocked_paths [] p = False"
| "check_blocked_paths (blocked # rest) p =
     (if entry_blocks blocked p then True else check_blocked_paths rest p)"

text \<open>
  \<^verbatim>\<open>is_resolved_path_blocked\<close>: the full path through the original \<^verbatim>\<open>realpath\<close>; if
  that fails, the parent directory through it, with the file name put back; a path with
  no slash stands for the working directory.
\<close>

definition is_resolved_path_blocked :: "host \<Rightarrow> config \<Rightarrow> string option \<Rightarrow> bool" where
  "is_resolved_path_blocked h c path =
     (case path of
        None \<Rightarrow> False
      | Some p \<Rightarrow>
          (case next_realpath h of
             None \<Rightarrow> False
           | Some orig_realpath \<Rightarrow>
               (case orig_realpath p of
                  Some resolved \<Rightarrow> check_blocked_paths (blocked_paths c) resolved
                | None \<Rightarrow>
                    if length p \<ge> PATH_MAX then False
                    else
                      (case strrchr p CHR ''/'' of
                         None \<Rightarrow>
                           (case getcwd h PATH_MAX of
                              None \<Rightarrow> False
                            | Some d \<Rightarrow>
                                (case orig_realpath d of
                                   None \<Rightarrow> False
                                 | Some resolved \<Rightarrow>
                                     check_blocked_paths (blocked_paths c) resolved))
                       | Some last_slash \<Rightarrow>
                           (let filename = drop (last_slash + 1) p;
                                path_copy = (if last_slash = 0 then ''/'' else take last_slash p)
                            in case orig_realpath path_copy of
                                 None \<Rightarrow> False
                               | Some resolved \<Rightarrow>
                                   if length resolved + 1 + length filename < PATH_MAX then
                                     check_blocked_paths (blocked_paths c)
                                       (resolved @ ''/'' @ filename)
                                   else False)))))"

text \<open>
  \<^verbatim>\<open>is_path_blocked\<close>. It returns the verdict and the configuration, which the call may
  have initialised. When normalisation fails the raw path, cut to the buffer, is checked.
\<close>

definition is_path_blocked :: "host \<Rightarrow> config \<Rightarrow> string option \<Rightarrow> bool \<times> config" where
  "is_path_blocked h c0 path =
     (let c = ensure_initialized h c0 in
      if init_failed c then (True, c)
      else
        (case path of
           None \<Rightarrow> (False, c)
         | Some p \<Rightarrow>
             if length (blocked_paths c) = 0 then (False, c)
             else
               (let normalized =
                      (case normalize_path h path PATH_MAX of
                         Some n \<Rightarrow> n
                       | None \<Rightarrow> take (PATH_MAX - 1) p)
                in if check_blocked_paths (blocked_paths c) normalized then (True, c)
                   else if is_resolved_path_blocked h c (Some normalized) then (True, c)
                   else (False, c))))"

text \<open>The decimal digits that \<^verbatim>\<open>%d\<close> prints.\<close>

function digits_of_nat :: "nat \<Rightarrow> string" where
  "digits_of_nat n =
     (if n < 10 then [''0123456789'' ! n]
      else digits_of_nat (n div 10) @ [''0123456789'' ! (n mod 10)])"
  by pat_completeness auto
termination
  by (relation "measure (\<lambda>n. n)") auto

declare digits_of_nat.simps [simp del]

definition digits_of_int :: "int \<Rightarrow> string" where
  "digits_of_int i = (if i < 0 then CHR ''-'' # digits_of_nat (nat (- i)) else digits_of_nat (nat i))"

text \<open>
  \<^verbatim>\<open>is_path_blocked_at\<close>. The original \<^verbatim>\<open>readlink\<close> fills at most
  \<^verbatim>\<open>sizeof(fd_path) - 1\<close> bytes; \<^verbatim>\<open>snprintf\<close> returns the length the whole string
  would have.
\<close>

definition is_path_blocked_at :: "host \<Rightarrow> config \<Rightarrow> int \<Rightarrow> string option \<Rightarrow> bool \<times> config" where
  "is_path_blocked_at h c dirfd path =
     (case path of
        None \<Rightarrow> (False, c)
      | Some p \<Rightarrow>
          if char_at p 0 = Some CHR ''/'' then is_path_blocked h c path
          else if dirfd = AT_FDCWD then is_path_blocked h c path
          else
            (case next_readlink h of
               None \<Rightarrow> (True, c)
             | Some orig_readlink \<Rightarrow>
                 (case orig_readlink (''/proc/self/fd/'' @ digits_of_int dirfd) of
                    None \<Rightarrow> (True, c)
                  | Some target \<Rightarrow>
                      (let fd_path = take (PATH_MAX - 1) target in
                       if length fd_path + 1 + length p \<ge> PATH_MAX then (True, c)
                       else is_path_blocked h c (Some (fd_path @ ''/'' @ p))))))"

text \<open>
  \<^verbatim>\<open>is_symlink_target_blocked\<close>. With a relative target the function reads
  \<^verbatim>\<open>linkpath\<close> without a test for \<open>NULL\<close>: the result \<open>None\<close> is that fault.
\<close>

definition is_symlink_target_blocked ::
  "host \<Rightarrow> config \<Rightarrow> string option \<Rightarrow> string option \<Rightarrow> (bool \<times> config) option" where
  "is_symlink_target_blocked h c target linkpath =
     (case target of
        None \<Rightarrow> Some (False, c)
      | Some t \<Rightarrow>
          if char_at t 0 = Some CHR ''/'' then Some (is_path_blocked h c target)
          else
            (case linkpath of
               None \<Rightarrow> None
             | Some l \<Rightarrow>
                 if length l \<ge> PATH_MAX then Some (True, c)
                 else
                   (case (case strrchr l CHR ''/'' of
                            None \<Rightarrow> getcwd h PATH_MAX
                          | Some last_slash \<Rightarrow>
                              if last_slash = 0 then Some ''/'' else Some (take last_slash l)) of
                      None \<Rightarrow> Some (True, c)
                    | Some linkdir \<Rightarrow>
                        if length linkdir + 1 + length t \<ge> PATH_MAX then Some (True, c)
                        else Some (is_path_blocked h c (Some (linkdir @ ''/'' @ t))))))"

subsection \<open>Intercepted functions\<close>

text \<open>
  What a call returns: an \<^verbatim>\<open>int\<close>, an \<^verbatim>\<open>ssize_t\<close>, the \<open>NULL\<close> pointer, a stream or
  directory handle, or a string.
\<close>

datatype retval = RInt int | RSize int | RNull | RHandle nat | RStr string

text \<open>
  What a hook can change: \<^verbatim>\<open>errno\<close>, the library's own state, and (through the original
  function only) the filesystem, whose type is left open. Error codes that the helper
  calls inside the path check may leave in \<^verbatim>\<open>errno\<close> are not modelled.
\<close>

record 'fs world =
  errno :: int
  cfg :: config
  fs :: 'fs

text \<open>
  A call of an intercepted function: the symbol and the arguments the hook looks at (the
  others are passed on as they are). The hooks of one constructor have the same body but
  for the symbol they look up:
  \<^item> \<open>Call_path\<close>, \<^verbatim>\<open>int f(const char *pathname, ...)\<close>: open, open64, creat, creat64,
    stat, stat64, lstat, lstat64, \_\_xstat, \_\_xstat64, \_\_lxstat, \_\_lxstat64, access,
    euidaccess, eaccess, chdir, mkdir, rmdir, unlink, chmod, chown, lchown, truncate,
    truncate64, setxattr, lsetxattr, removexattr, lremovexattr, execve, nftw, ftw, utime,
    utimes, mknod, mkfifo;
  \<^item> \<open>Call_path_ssize\<close>, \<^verbatim>\<open>ssize_t f(const char *pathname, ...)\<close>: readlink, getxattr,
    lgetxattr, listxattr, llistxattr;
  \<^item> \<open>Call_path_ptr\<close>, a stream or a directory: fopen, fopen64, opendir;
  \<^item> \<open>Call_freopen\<close>: freopen, freopen64;
  \<^item> \<open>Call_at\<close>, \<^verbatim>\<open>int f(int dirfd, const char *pathname, ...)\<close>: openat, openat64,
    fstatat, fstatat64, \_\_fxstatat, \_\_fxstatat64, statx, faccessat, mkdirat, unlinkat,
    fchmodat, fchownat, execveat, utimensat, futimesat, mknodat, mkfifoat;
  \<^item> \<open>Call_at_ssize\<close>: readlinkat;
  \<^item> \<open>Call_two\<close>, \<^verbatim>\<open>int f(const char *oldpath, const char *newpath)\<close>: rename, link;
  \<^item> \<open>Call_two_at\<close>: renameat, renameat2, linkat;
  \<^item> \<open>Call_symlink\<close> (target, linkpath) and \<open>Call_symlinkat\<close> (target, newdirfd,
    linkpath);
  \<^item> \<open>Call_resolve\<close>: realpath, canonicalize\_file\_name.
\<close>

datatype call =
    Call_path string "string option"
  | Call_path_ssize string "string option"
  | Call_path_ptr string "string option"
  | Call_freopen string "string option"
  | Call_at string int "string option"
  | Call_at_ssize string int "string option"
  | Call_two string "string option" "string option"
  | Call_two_at string int "string option" int "string option"
  | Call_symlink "string option" "string option"
  | Call_symlinkat "string option" int "string option"
  | Call_resolve string "string option"

text \<open>
  \<open>orig\<close>, the function that \<^verbatim>\<open>dlsym(RTLD_NEXT, name)\<close> returns, applied to the call's
  arguments: it returns a value and may change the world.
\<close>

type_synonym 'fs libc = "call \<Rightarrow> 'fs world \<Rightarrow> retval \<times> 'fs world"

definition BLOCK_AND_RETURN :: "retval \<Rightarrow> 'fs world \<Rightarrow> retval \<times> 'fs world" where
  "BLOCK_AND_RETURN ret_val w = (ret_val, w\<lparr>errno := EACCES\<rparr>)"

text \<open>\<^verbatim>\<open>if (is_path_blocked(pathname)) BLOCK_AND_RETURN(ret_val); return orig(...);\<close>\<close>

definition hook_path ::
  "host \<Rightarrow> 'fs libc \<Rightarrow> call \<Rightarrow> retval \<Rightarrow> string option \<Rightarrow> 'fs world \<Rightarrow> retval \<times> 'fs world" where
  "hook_path h orig cl ret_val pathname w =
     (case is_path_blocked h (cfg w) pathname of
        (b, c) \<Rightarrow>
          if b then BLOCK_AND_RETURN ret_val (w\<lparr>cfg := c\<rparr>)
          else orig cl (w\<lparr>cfg := c\<rparr>))"





text \<open>
  \<^verbatim>\<open>if (is_symlink_target_blocked(target, linkpath)) BLOCK_AND_RETURN(-1);\<close> and, when it
  is not blocked, the call of the original. \<open>None\<close> is the fault of
  \<open>is_symlink_target_blocked\<close>.
\<close>

definition check_symlink_target ::
  "host \<Rightarrow> 'fs libc \<Rightarrow> call \<Rightarrow> string option \<Rightarrow> string option \<Rightarrow> 'fs world \<Rightarrow>
     (retval \<times> 'fs world) option" where
  "check_symlink_target h orig cl target linkpath w =
     (case is_symlink_target_blocked h (cfg w) target linkpath of
        None \<Rightarrow> None
      | Some (b, c) \<Rightarrow>
          if b then Some (BLOCK_AND_RETURN (RInt (- 1)) (w\<lparr>cfg := c\<rparr>))
          else Some (orig cl (w\<lparr>cfg := c\<rparr>)))"

definition symlink ::
  "host \<Rightarrow> 'fs libc \<Rightarrow> string option \<Rightarrow> string option \<Rightarrow> 'fs world \<Rightarrow>
     (retval \<times> 'fs world) option" where
  "symlink h orig target linkpath w =
     (case is_path_blocked h (cfg w) linkpath of
        (b, c) \<Rightarrow>
          if b then Some (BLOCK_AND_RETURN (RInt (- 1)) (w\<lparr>cfg := c\<rparr>))
          else check_symlink_target h orig (Call_symlink target linkpath) target linkpath
                 (w\<lparr>cfg := c\<rparr>))"

text \<open>\<^verbatim>\<open>linkpath && linkpath[0] == '/'\<close>: the path when the test holds.\<close>

definition absolute_linkpath :: "string option \<Rightarrow> string option" where
  "absolute_linkpath linkpath =
     (case linkpath of
        None \<Rightarrow> None
      | Some l \<Rightarrow> if char_at l 0 = Some CHR ''/'' then Some l else None)"

definition symlinkat ::
  "host \<Rightarrow> 'fs libc \<Rightarrow> string option \<Rightarrow> int \<Rightarrow> string option \<Rightarrow> 'fs world \<Rightarrow>
     (retval \<times> 'fs world) option" where
  "symlinkat h orig target newdirfd linkpath w =
     (let cl = Call_symlinkat target newdirfd linkpath in
      case is_path_blocked_at h (cfg w) newdirfd linkpath of
        (b, c) \<Rightarrow>
          (let w1 = w\<lparr>cfg := c\<rparr> in
           if b then Some (BLOCK_AND_RETURN (RInt (- 1)) w1)
           else
             (case target of
                None \<Rightarrow> Some (orig cl w1)
              | Some t \<Rightarrow>
                  if char_at t 0 = Some CHR ''/'' then
                    Some (hook_path h orig cl (RInt (- 1)) target w1)
                  else
                    (case absolute_linkpath linkpath of
                       Some l \<Rightarrow>
                         if length l < PATH_MAX then
                           check_symlink_target h orig cl target (Some l) w1
                         else Some (orig cl w1)
                     | None \<Rightarrow>
                         if newdirfd = AT_FDCWD then
                           (case getcwd h PATH_MAX of
                              None \<Rightarrow> Some (orig cl w1)
                            | Some d \<Rightarrow>
                                (case linkpath of
                                   None \<Rightarrow> Some (orig cl w1)
                                 | Some l \<Rightarrow>
                                     if length d + 1 + length l < PATH_MAX then
                                       check_symlink_target h orig cl target
                                         (Some (d @ ''/'' @ l)) w1
                                     else Some (orig cl w1)))
                         else
                           (case next_readlink h of
                              None \<Rightarrow> Some (BLOCK_AND_RETURN (RInt (- 1)) w1)
                            | Some orig_readlink \<Rightarrow>
                                (case orig_readlink
                                        (''/proc/self/fd/'' @ digits_of_int newdirfd) of
                                   None \<Rightarrow> Some (BLOCK_AND_RETURN (RInt (- 1)) w1)
                                 | Some tgt \<Rightarrow>
                                     (let fd_path = take (PATH_MAX - 1) tgt in
                                      if length fd_path \<le> 0 then
                                        Some (BLOCK_AND_RETURN (RInt (- 1)) w1)
                                      else
                                        (case linkpath of
                                           None \<Rightarrow> Some (orig cl w1)
                                         | Some l \<Rightarrow>
                                             if length fd_path + 1 + length l < PATH_MAX then
                                               check_symlink_target h orig cl target
                                                 (Some (fd_path @ ''/'' @ l)) w1
                                             else Some (orig cl w1)))))))))"



subsection \<open>Hosts and the match rule of the specification\<close>

text \<open>
  The rule as the specification words it: a prefix \<open>P\<close> matches a candidate \<open>C\<close> iff
  \<open>C = P\<close> or \<open>C\<close> begins with \<open>P\<close> followed immediately by a path separator.
\<close>

definition spec_matches :: "string \<Rightarrow> string \<Rightarrow> bool" where
  "spec_matches P C = (C = P \<or> prefix (P @ ''/'') C)"

text \<open>
  The candidate that \<open>is_path_blocked\<close> compares with the list: the normalised path,
  or the raw path cut to the buffer when normalisation fails.
\<close>

definition candidate :: "host \<Rightarrow> string \<Rightarrow> string" where
  "candidate h p =
     (case normalize_path h (Some p) PATH_MAX of
        Some n \<Rightarrow> n
      | None \<Rightarrow> take (PATH_MAX - 1) p)"

text \<open>
  A host for examples: the list is taken from \<open>paths\<close>, every allocation succeeds, the
  working directory is \<^verbatim>\<open>/workspace\<close>, and the original \<^verbatim>\<open>realpath\<close> and
  \<^verbatim>\<open>readlink\<close> are \<open>rp\<close> and \<open>rl\<close>.
\<close>

definition example_host ::
  "string option \<Rightarrow> (string \<Rightarrow> string option) \<Rightarrow> (string \<Rightarrow> string option) \<Rightarrow> host" where
  "example_host paths rp rl =
     \<lparr>env_SANDBOX_DEBUG = None, env_SANDBOX_BLOCKED_PATHS = paths,
      paths_strdup_ok = True, token_strdup_ok = (\<lambda>i. True), work_strdup_ok = True,
      cwd = Some ''/workspace'', next_realpath = Some rp, next_readlink = Some rl\<rparr>"

text \<open>
  A filesystem with the directories \<^verbatim>\<open>/workspace\<close> and \<^verbatim>\<open>/tmp\<close> and nothing else that
  the examples touch, and no open directory descriptor.
\<close>

definition plain_realpath :: "string \<Rightarrow> string option" where
  "plain_realpath p = (if p = ''/workspace'' \<or> p = ''/tmp'' then Some p else None)"

definition no_readlink :: "string \<Rightarrow> string option" where
  "no_readlink p = None"

section \<open>Properties\<close>

subsection \<open>Tokens\<close>

lemma strtok_all_Nil: "strtok_all d [] = []"
  by (simp add: strtok_all.simps strtok_r_def)

lemma strtok_r_skip: "strtok_r d (d # s) = strtok_r d s"
  by (simp add: strtok_r_def)

lemma strtok_all_Cons:
  "strtok_all d (c # s) =
     (if c = d then strtok_all d s
      else (c # takeWhile (\<lambda>x. x \<noteq> d) s) #
           strtok_all d (drop 1 (dropWhile (\<lambda>x. x \<noteq> d) s)))"
proof (cases "c = d")
  case True
  then show ?thesis
    by (subst strtok_all.simps, subst (2) strtok_all.simps) (simp add: strtok_r_skip)
next
  case False
  then show ?thesis
    by (subst strtok_all.simps) (simp add: strtok_r_def)
qed

lemmas strtok_eval = strtok_all_Nil strtok_all_Cons

subsection \<open>The comparison with a list entry\<close>

lemma strncmp_eq_prefix: "strncmp_eq p b (length b) = prefix b p"
proof (induction b arbitrary: p)
  case Nil
  show ?case by simp
next
  case (Cons y ys)
  show ?case
  proof (cases p)
    case Nil
    then show ?thesis by simp
  next
    case (Cons x xs)
    then show ?thesis using Cons.IH [of xs] by auto
  qed
qed

lemma entry_blocks_iff: "entry_blocks b p = spec_matches b p"
proof (cases "prefix b p")
  case False
  then have "\<not> prefix (b @ ''/'') p"
    by (auto simp: prefix_def)
  with False show ?thesis
    by (auto simp: entry_blocks_def spec_matches_def strncmp_eq_prefix)
next
  case True
  then obtain r where r: "p = b @ r"
    by (auto simp: prefix_def)
  show ?thesis
    by (cases r) (auto simp: r entry_blocks_def spec_matches_def strncmp_eq_prefix char_at_def)
qed

lemma check_blocked_paths_iff:
  "check_blocked_paths bs p = (\<exists>Q \<in> set bs. spec_matches Q p)"
  by (induction bs) (auto simp: entry_blocks_iff)

subsection \<open>Initialization runs once\<close>

lemma init_failed_init_blocked_paths:
  "init_failed c \<Longrightarrow> init_failed (init_blocked_paths h c)"
  by (simp add: init_blocked_paths_def Let_def)

lemma init_failed_ensure_initialized:
  "init_failed c \<Longrightarrow> init_failed (ensure_initialized h c)"
  by (simp add: ensure_initialized_def init_failed_init_blocked_paths)

lemma init_once_ensure_initialized: "init_once (ensure_initialized h c)"
  by (simp add: ensure_initialized_def)

lemma ensure_initialized_idem:
  "ensure_initialized h (ensure_initialized h c) = ensure_initialized h c"
  by (simp add: ensure_initialized_def)

lemma snd_is_path_blocked: "snd (is_path_blocked h c path) = ensure_initialized h c"
  by (simp add: is_path_blocked_def Let_def split: option.splits)

lemma is_path_blocked_ensure:
  "is_path_blocked h (ensure_initialized h c) path = is_path_blocked h c path"
  by (simp add: is_path_blocked_def ensure_initialized_idem)

lemma is_path_blocked_fail_closed:
  "init_failed c \<Longrightarrow> fst (is_path_blocked h c path)"
  by (simp add: is_path_blocked_def Let_def init_failed_ensure_initialized)

lemma is_path_blocked_at_fail_closed:
  "init_failed c \<Longrightarrow> fst (is_path_blocked_at h c dirfd (Some p))"
  by (simp add: is_path_blocked_at_def Let_def is_path_blocked_fail_closed split: option.splits)

lemma is_path_blocked_at_null: "is_path_blocked_at h c dirfd None = (False, c)"
  by (simp add: is_path_blocked_at_def)

lemma is_path_blocked_at_descriptor:
  "char_at p 0 \<noteq> Some CHR ''/'' \<Longrightarrow> dirfd \<noteq> AT_FDCWD \<Longrightarrow> next_readlink h = Some orig_readlink \<Longrightarrow>
   orig_readlink (''/proc/self/fd/'' @ digits_of_int dirfd) = Some t \<Longrightarrow>
   fd_path = take (PATH_MAX - 1) t \<Longrightarrow>
   is_path_blocked_at h c dirfd (Some p) =
     (if length fd_path + 1 + length p < PATH_MAX
      then is_path_blocked h c (Some (fd_path @ ''/'' @ p))
      else (True, c))"
  by (auto simp: is_path_blocked_at_def Let_def)

subsection \<open>The fail-closed flag\<close>

text \<open>A host in which the working copy of the list cannot be allocated.\<close>

definition no_memory_host :: host where
  "no_memory_host = (example_host None plain_realpath no_readlink)\<lparr>paths_strdup_ok := False\<rparr>"

text \<open>
  C2. With the fail-closed flag set \<open>is_path_blocked\<close> blocks every path, the null path
  too, and \<open>is_path_blocked_at\<close> blocks every path that is not null (the two lemmas
  above). For a null path \<open>is_path_blocked_at\<close> returns before it looks at the flag: in
  the state that a failed initialisation leaves, the query for descriptor 3 and a null
  path is allowed, while \<open>is_path_blocked\<close> blocks the null path.
\<close>

theorem fail_closed_null_path_at_allowed:
  "init_failed (ensure_initialized no_memory_host config0) \<and>
   fst (is_path_blocked no_memory_host (ensure_initialized no_memory_host config0) None) \<and>
   fst (is_path_blocked_at no_memory_host (ensure_initialized no_memory_host config0) 3 None)
     = False"
  by (simp add: is_path_blocked_at_null is_path_blocked_fail_closed ensure_initialized_def
      init_blocked_paths_def no_memory_host_def example_host_def config0_def)

subsection \<open>Absent path, empty list\<close>

text \<open>
  C9, as amended. When the fail-closed flag is not set after initialisation,
  \<open>is_path_blocked\<close> allows a null path and allows every path while the list is empty;
  an empty value of the environment variable leaves the list empty, and then, the working
  copy having been allocated, every path is allowed. \<open>is_path_blocked_at\<close> allows a null
  path too, and with the flag clear and the list empty it allows every absolute path and
  every path relative to \<open>AT_FDCWD\<close>; for a relative path and another descriptor it
  blocks exactly when the original \<^verbatim>\<open>readlink\<close> cannot be looked up, the descriptor
  cannot be read, or the directory, a slash and the path do not fit \<open>PATH_MAX\<close>.
\<close>

theorem is_path_blocked_absent_or_empty:
  "(\<not> init_failed (ensure_initialized h c0) \<and>
    (path = None \<or> blocked_paths (ensure_initialized h c0) = []) \<longrightarrow>
      \<not> fst (is_path_blocked h c0 path)) \<and>
   (env_SANDBOX_BLOCKED_PATHS h = Some [] \<longrightarrow>
      blocked_paths (ensure_initialized h config0) = [] \<and>
      (paths_strdup_ok h \<longrightarrow> \<not> fst (is_path_blocked h config0 path))) \<and>
   \<not> fst (is_path_blocked_at h c0 dirfd None) \<and>
   (\<not> init_failed (ensure_initialized h c0) \<and> blocked_paths (ensure_initialized h c0) = [] \<and>
    (char_at p 0 = Some CHR ''/'' \<or> dirfd = AT_FDCWD) \<longrightarrow>
      \<not> fst (is_path_blocked_at h c0 dirfd (Some p))) \<and>
   (\<not> init_failed (ensure_initialized h c0) \<and> blocked_paths (ensure_initialized h c0) = [] \<and>
    char_at p 0 \<noteq> Some CHR ''/'' \<and> dirfd \<noteq> AT_FDCWD \<longrightarrow>
      fst (is_path_blocked_at h c0 dirfd (Some p)) =
        (case next_readlink h of
           None \<Rightarrow> True
         | Some orig_readlink \<Rightarrow>
             (case orig_readlink (''/proc/self/fd/'' @ digits_of_int dirfd) of
                None \<Rightarrow> True
              | Some t \<Rightarrow> PATH_MAX \<le> length (take (PATH_MAX - 1) t) + 1 + length p)))"
proof -
  have a: "\<not> init_failed (ensure_initialized h c0) \<and>
      (path = None \<or> blocked_paths (ensure_initialized h c0) = []) \<longrightarrow>
      \<not> fst (is_path_blocked h c0 path)" for path
    by (auto simp: is_path_blocked_def Let_def split: option.splits)
  have b: "env_SANDBOX_BLOCKED_PATHS h = Some [] \<longrightarrow>
      blocked_paths (ensure_initialized h config0) = [] \<and>
      (paths_strdup_ok h \<longrightarrow> \<not> fst (is_path_blocked h config0 path))"
    by (auto simp: is_path_blocked_def Let_def ensure_initialized_def init_blocked_paths_def
        config0_def strtok_all_Nil split: option.splits)
  have c: "\<not> fst (is_path_blocked_at h c0 dirfd None)"
    by (simp add: is_path_blocked_at_null)
  have d: "\<not> init_failed (ensure_initialized h c0) \<and> blocked_paths (ensure_initialized h c0) = [] \<and>
      (char_at p 0 = Some CHR ''/'' \<or> dirfd = AT_FDCWD) \<longrightarrow>
      \<not> fst (is_path_blocked_at h c0 dirfd (Some p))"
    using a [of "Some p"] by (auto simp: is_path_blocked_at_def)
  have e: "\<not> init_failed (ensure_initialized h c0) \<and> blocked_paths (ensure_initialized h c0) = [] \<and>
      char_at p 0 \<noteq> Some CHR ''/'' \<and> dirfd \<noteq> AT_FDCWD \<longrightarrow>
      fst (is_path_blocked_at h c0 dirfd (Some p)) =
        (case next_readlink h of
           None \<Rightarrow> True
         | Some orig_readlink \<Rightarrow>
             (case orig_readlink (''/proc/self/fd/'' @ digits_of_int dirfd) of
                None \<Rightarrow> True
              | Some t \<Rightarrow> PATH_MAX \<le> length (take (PATH_MAX - 1) t) + 1 + length p))"
  proof
    assume h: "\<not> init_failed (ensure_initialized h c0) \<and>
      blocked_paths (ensure_initialized h c0) = [] \<and>
      char_at p 0 \<noteq> Some CHR ''/'' \<and> dirfd \<noteq> AT_FDCWD"
    then have nb: "\<not> fst (is_path_blocked h c0 (Some x))" for x
      using a [of "Some x"] by simp
    show "fst (is_path_blocked_at h c0 dirfd (Some p)) =
        (case next_readlink h of
           None \<Rightarrow> True
         | Some orig_readlink \<Rightarrow>
             (case orig_readlink (''/proc/self/fd/'' @ digits_of_int dirfd) of
                None \<Rightarrow> True
              | Some t \<Rightarrow> PATH_MAX \<le> length (take (PATH_MAX - 1) t) + 1 + length p))"
    proof (cases "next_readlink h")
      case None
      with h show ?thesis
        by (simp add: is_path_blocked_at_def)
    next
      case rl: (Some orig_readlink)
      show ?thesis
      proof (cases "orig_readlink (''/proc/self/fd/'' @ digits_of_int dirfd)")
        case None
        with rl h show ?thesis
          by (simp add: is_path_blocked_at_def)
      next
        case (Some t)
        define fd_path where "fd_path = take (PATH_MAX - 1) t"
        from h have rel: "char_at p 0 \<noteq> Some CHR ''/''" and fd: "dirfd \<noteq> AT_FDCWD"
          by simp_all
        have "is_path_blocked_at h c0 dirfd (Some p) =
                (if length fd_path + 1 + length p < PATH_MAX
                 then is_path_blocked h c0 (Some (fd_path @ ''/'' @ p))
                 else (True, c0))"
          using rel fd rl Some fd_path_def by (rule is_path_blocked_at_descriptor)
        then have "fst (is_path_blocked_at h c0 dirfd (Some p)) =
                     (PATH_MAX \<le> length fd_path + 1 + length p)"
          using nb [of "fd_path @ ''/'' @ p"] by (simp add: not_less)
        then show ?thesis
          using rl Some unfolding fd_path_def by simp
      qed
    qed
  qed
  from a b c d e show ?thesis by blast
qed

definition empty_env_host :: host where
  "empty_env_host = example_host (Some []) plain_realpath no_readlink"

theorem is_path_blocked_absent_or_empty_witness:
  "\<not> init_failed (ensure_initialized empty_env_host config0) \<and>
   blocked_paths (ensure_initialized empty_env_host config0) = [] \<and>
   env_SANDBOX_BLOCKED_PATHS empty_env_host = Some [] \<and>
   paths_strdup_ok empty_env_host \<and>
   \<not> fst (is_path_blocked empty_env_host config0 (Some ''/app/secret'')) \<and>
   \<not> fst (is_path_blocked empty_env_host config0 None) \<and>
   \<not> fst (is_path_blocked_at empty_env_host config0 3 None) \<and>
   \<not> fst (is_path_blocked_at empty_env_host config0 AT_FDCWD (Some ''app/secret'')) \<and>
   char_at ''app/secret'' 0 \<noteq> Some CHR ''/'' \<and> 3 \<noteq> AT_FDCWD \<and>
   next_readlink empty_env_host = Some no_readlink \<and>
   fst (is_path_blocked_at empty_env_host config0 3 (Some ''app/secret''))"
proof -
  have e: "env_SANDBOX_BLOCKED_PATHS empty_env_host = Some []"
    and a: "paths_strdup_ok empty_env_host"
    and r: "next_readlink empty_env_host = Some no_readlink"
    by (simp_all add: empty_env_host_def example_host_def)
  have f: "\<not> init_failed (ensure_initialized empty_env_host config0)"
    by (simp add: ensure_initialized_def init_blocked_paths_def config0_def a e)
  have g: "char_at ''app/secret'' 0 \<noteq> Some CHR ''/''" "3 \<noteq> AT_FDCWD"
    by (simp_all add: char_at_def AT_FDCWD_def)
  from is_path_blocked_absent_or_empty
         [of empty_env_host config0 "Some ''/app/secret''" 3 "''app/secret''"]
    is_path_blocked_absent_or_empty [of empty_env_host config0 None AT_FDCWD "''app/secret''"]
    e a f g r
  show ?thesis by (simp add: no_readlink_def)
qed

text \<open>
  The claim as stated fails: with an empty value of the environment variable the flag is
  clear and the list is empty, and the query for descriptor 9, which cannot be read, and
  the relative path \<^verbatim>\<open>app/secret\<close> is blocked.
\<close>

theorem empty_list_unreadable_descriptor_blocked:
  "env_SANDBOX_BLOCKED_PATHS empty_env_host = Some [] \<and>
   \<not> init_failed (ensure_initialized empty_env_host config0) \<and>
   blocked_paths (ensure_initialized empty_env_host config0) = [] \<and>
   fst (is_path_blocked_at empty_env_host (ensure_initialized empty_env_host config0) 9
          (Some ''app/secret''))"
proof -
  have e: "env_SANDBOX_BLOCKED_PATHS empty_env_host = Some []"
    and a: "paths_strdup_ok empty_env_host"
    and r: "next_readlink empty_env_host = Some no_readlink"
    by (simp_all add: empty_env_host_def example_host_def)
  have f: "\<not> init_failed (ensure_initialized empty_env_host config0)"
    and l: "blocked_paths (ensure_initialized empty_env_host config0) = []"
    by (simp_all add: ensure_initialized_def init_blocked_paths_def config0_def a e
        strtok_all_Nil)
  have b: "fst (is_path_blocked_at empty_env_host (ensure_initialized empty_env_host config0) 9
                  (Some ''app/secret''))"
    by (simp add: is_path_blocked_at_def r no_readlink_def char_at_def AT_FDCWD_def)
  from e f l b show ?thesis by simp
qed

subsection \<open>Normalisation\<close>

text \<open>What the rebuild loop writes for a list of components.\<close>

fun join_components :: "string list \<Rightarrow> string" where
  "join_components [] = []"
| "join_components (c # cs) = ''/'' @ c @ join_components cs"

text \<open>A component that the component loop keeps.\<close>

definition clean_component :: "string \<Rightarrow> bool" where
  "clean_component c = (c \<noteq> [] \<and> CHR ''/'' \<notin> set c \<and> c \<noteq> ''.'' \<and> c \<noteq> ''..'')"

lemma strtok_r_token:
  assumes "strtok_r d s = Some (tok, saveptr)"
  shows "tok \<noteq> [] \<and> d \<notin> set tok"
proof -
  define s1 where "s1 = dropWhile (\<lambda>c. c = d) s"
  from assms have ne: "s1 \<noteq> []" and tok: "tok = takeWhile (\<lambda>c. c \<noteq> d) s1"
    by (auto simp: strtok_r_def s1_def Let_def split: if_splits)
  from ne have "hd s1 \<noteq> d"
    unfolding s1_def using hd_dropWhile [of "\<lambda>c. c = d" s] by simp
  with ne have "tok \<noteq> []"
    by (simp add: tok takeWhile_eq_Nil_iff)
  moreover have "d \<notin> set tok"
    unfolding tok by (auto dest: set_takeWhileD)
  ultimately show ?thesis by simp
qed

lemma strtok_all_tokens: "t \<in> set (strtok_all d s) \<Longrightarrow> t \<noteq> [] \<and> d \<notin> set t"
proof (induction d s rule: strtok_all.induct)
  case (1 d s)
  show ?case
  proof (cases "strtok_r d s")
    case None
    then have "strtok_all d s = []"
      by (subst strtok_all.simps) simp
    with "1.prems" show ?thesis by simp
  next
    case (Some a)
    obtain tok saveptr where a: "a = (tok, saveptr)"
      by (cases a)
    have "strtok_all d s = tok # strtok_all d saveptr"
      by (subst strtok_all.simps) (simp add: Some a)
    with "1.prems" have "t = tok \<or> t \<in> set (strtok_all d saveptr)"
      by simp
    then show ?thesis
    proof
      assume "t = tok"
      with strtok_r_token [of d s tok saveptr] Some a show ?thesis by simp
    next
      assume "t \<in> set (strtok_all d saveptr)"
      then show ?thesis
        by (rule "1.IH" [OF Some a [symmetric]])
    qed
  qed
qed

lemma walk_components_clean:
  "\<forall>t \<in> set toks. t \<noteq> [] \<and> CHR ''/'' \<notin> set t \<Longrightarrow> \<forall>c \<in> set comps. clean_component c \<Longrightarrow>
   \<forall>c \<in> set (walk_components toks comps). clean_component c"
proof (induction toks arbitrary: comps)
  case Nil
  then show ?case by simp
next
  case (Cons t toks)
  have bl: "\<forall>c \<in> set (butlast comps). clean_component c"
    using Cons.prems(2) by (auto dest: in_set_butlastD)
  have ap: "t \<noteq> ''.'' \<Longrightarrow> t \<noteq> ''..'' \<Longrightarrow> \<forall>c \<in> set (comps @ [t]). clean_component c"
    using Cons.prems by (auto simp: clean_component_def)
  from Cons.prems(1) have toks: "\<forall>t \<in> set toks. t \<noteq> [] \<and> CHR ''/'' \<notin> set t"
    by simp
  show ?case
    using Cons.IH [OF toks bl] Cons.IH [OF toks Cons.prems(2)] Cons.IH [OF toks ap]
    by simp
qed

lemma rebuild_path_Some:
  "rebuild_path n cs acc = Some r \<Longrightarrow>
   r = acc @ join_components cs \<and> (cs \<noteq> [] \<longrightarrow> length r < n)"
proof (induction cs arbitrary: acc)
  case Nil
  then show ?case by simp
next
  case (Cons c cs)
  from Cons.prems have fit: "length acc + 1 + length c < n"
    and rec: "rebuild_path n cs (acc @ ''/'' @ c) = Some r"
    by (auto split: if_splits)
  from Cons.IH [OF rec] fit show ?case
    by (cases cs) auto
qed

lemma rebuild_path_fits:
  "length (acc @ join_components cs) < n \<Longrightarrow>
   rebuild_path n cs acc = Some (acc @ join_components cs)"
proof (induction cs arbitrary: acc)
  case Nil
  then show ?case by simp
next
  case (Cons c cs)
  from Cons.prems have "length ((acc @ ''/'' @ c) @ join_components cs) < n"
    by simp
  from Cons.IH [OF this] Cons.prems show ?case by simp
qed

lemma strtok_all_skip: "strtok_all d (d # s) = strtok_all d s"
  by (simp add: strtok_all_Cons)

lemma strtok_all_token_append:
  assumes "c \<noteq> []" and "d \<notin> set c" and "rest = [] \<or> hd rest = d"
  shows "strtok_all d (c @ rest) = c # strtok_all d (drop 1 rest)"
proof -
  from assms(1) obtain x xs where c: "c = x # xs"
    by (cases c) auto
  from assms(2) c have x: "x \<noteq> d" and xs: "\<forall>y \<in> set xs. y \<noteq> d"
    by auto
  from assms(3) have tw: "takeWhile (\<lambda>y. y \<noteq> d) (xs @ rest) = xs"
    and dw: "dropWhile (\<lambda>y. y \<noteq> d) (xs @ rest) = rest"
    using xs by (cases rest; simp)+
  show ?thesis
    using x by (simp add: c strtok_all_Cons tw dw)
qed

lemma strtok_all_join:
  "\<forall>c \<in> set cs. c \<noteq> [] \<and> CHR ''/'' \<notin> set c \<Longrightarrow>
   strtok_all CHR ''/'' (join_components cs) = cs"
proof (induction cs)
  case Nil
  show ?case by (simp add: strtok_all_Nil)
next
  case (Cons c cs)
  have hd: "join_components cs = [] \<or> hd (join_components cs) = CHR ''/''"
    by (cases cs) auto
  have dr: "strtok_all CHR ''/'' (drop (Suc 0) (join_components cs)) =
            strtok_all CHR ''/'' (join_components cs)"
    by (cases cs) (auto simp: strtok_all_skip)
  from Cons.prems have c: "c \<noteq> []" "CHR ''/'' \<notin> set c"
    by auto
  from Cons have ih: "strtok_all CHR ''/'' (join_components cs) = cs"
    by simp
  show ?case
    using strtok_all_token_append [OF c hd] by (simp add: strtok_all_skip dr ih)
qed

lemma walk_components_id:
  "\<forall>c \<in> set cs. clean_component c \<Longrightarrow> walk_components cs acc = acc @ cs"
  by (induction cs arbitrary: acc) (auto simp: clean_component_def)

lemma normalize_path_again:
  assumes "normalize_path h (Some P) PATH_MAX = Some r" and "work_strdup_ok h'"
  shows "normalize_path h' (Some r) PATH_MAX = Some r"
proof -
  from assms(1) obtain absolute res where
    res: "rebuild_path PATH_MAX (walk_components (strtok_all CHR ''/'' absolute) []) [] = Some res"
    and r: "r = (if res = [] then ''/'' else res)"
    by (auto simp: normalize_path_def split: option.splits if_splits)
  define cs where "cs = walk_components (strtok_all CHR ''/'' absolute) []"
  have clean: "\<forall>c \<in> set cs. clean_component c"
    unfolding cs_def
    by (rule walk_components_clean) (auto dest: strtok_all_tokens)
  from rebuild_path_Some [OF res [folded cs_def]]
  have res_eq: "res = join_components cs" and len: "cs \<noteq> [] \<longrightarrow> length res < PATH_MAX"
    by blast+
  show ?thesis
  proof (cases cs)
    case Nil
    with res_eq r have "r = ''/''" by simp
    then show ?thesis
      using assms(2)
      by (simp add: normalize_path_def make_absolute_def char_at_def PATH_MAX_def strtok_eval)
  next
    case (Cons c cs')
    with res_eq r have rj: "r = join_components cs" and ne: "r \<noteq> []"
      by auto
    from Cons len rj res_eq have rl: "length r < PATH_MAX" by simp
    from rj Cons have r0: "char_at r 0 = Some CHR ''/''"
      by (simp add: char_at_def)
    have ma: "make_absolute h' r = Some r"
      using r0 rl by (simp add: make_absolute_def)
    have tk: "strtok_all CHR ''/'' r = cs"
      unfolding rj using clean by (intro strtok_all_join) (auto simp: clean_component_def)
    have wk: "walk_components cs [] = cs"
      using walk_components_id [OF clean, of "[]"] by simp
    have rb: "rebuild_path PATH_MAX cs [] = Some r"
      using rebuild_path_fits [of "[]" cs PATH_MAX] rl rj by simp
    show ?thesis
      using assms(2) ne PATH_MAX_def
      by (simp add: normalize_path_def ma tk wk rb)
  qed
qed

text \<open>
  C8. Textual canonicalisation is idempotent: when \<open>normalize_path\<close> succeeds on a
  path, normalising its result gives the result back.
\<close>

theorem normalize_path_idempotent:
  "normalize_path h (Some P) PATH_MAX = Some r \<Longrightarrow> normalize_path h (Some r) PATH_MAX = Some r"
proof -
  assume a: "normalize_path h (Some P) PATH_MAX = Some r"
  then have "work_strdup_ok h"
    by (auto simp: normalize_path_def PATH_MAX_def split: option.splits if_splits)
  with a show ?thesis by (rule normalize_path_again)
qed

theorem normalize_path_idempotent_witness:
  "normalize_path (example_host None plain_realpath no_readlink) (Some ''a/.././/b/'') PATH_MAX
     = Some ''/workspace/b'' \<and>
   normalize_path (example_host None plain_realpath no_readlink) (Some ''/workspace/b'') PATH_MAX
     = Some ''/workspace/b''"
proof -
  have a: "normalize_path (example_host None plain_realpath no_readlink) (Some ''a/.././/b/'')
             PATH_MAX = Some ''/workspace/b''"
    by (simp add: normalize_path_def make_absolute_def getcwd_def char_at_def example_host_def
        PATH_MAX_def strtok_eval)
  from normalize_path_idempotent [OF a] a show ?thesis by simp
qed

subsection \<open>The admission rule\<close>

definition app_host :: host where
  "app_host = example_host (Some ''/app'') plain_realpath no_readlink"

text \<open>
  The scenario of the specification: \<^verbatim>\<open>/workspace/link1\<close> is a link to \<^verbatim>\<open>/\<close> and
  \<^verbatim>\<open>/workspace/link2\<close> a link to \<^verbatim>\<open>link1/app\<close>.
\<close>

definition chain_realpath :: "string \<Rightarrow> string option" where
  "chain_realpath p =
     (if p = ''/workspace/link2/secret'' then Some ''/app/secret'' else plain_realpath p)"

definition chain_host :: host where
  "chain_host = example_host (Some ''/app'') chain_realpath no_readlink"

lemma app_config:
  "ensure_initialized (example_host (Some ''/app'') rp rl) config0 =
     \<lparr>blocked_paths = [''/app''], debug_enabled = False, initialized = True,
      init_failed = False, init_once = True\<rparr>"
  by (simp add: ensure_initialized_def init_blocked_paths_def example_host_def
      config0_def strtok_eval trim_token_def strip_trailing_def MAX_BLOCKED_PATHS_def)

lemma app_host_config:
  "ensure_initialized app_host config0 =
     \<lparr>blocked_paths = [''/app''], debug_enabled = False, initialized = True,
      init_failed = False, init_once = True\<rparr>"
  by (simp add: app_host_def app_config)

lemma chain_host_config:
  "ensure_initialized chain_host config0 =
     \<lparr>blocked_paths = [''/app''], debug_enabled = False, initialized = True,
      init_failed = False, init_once = True\<rparr>"
  by (simp add: chain_host_def app_config)

lemmas path_eval = candidate_def normalize_path_def make_absolute_def getcwd_def char_at_def
  example_host_def PATH_MAX_def strtok_eval

lemmas resolve_eval = is_resolved_path_blocked_def getcwd_def example_host_def
  plain_realpath_def strrchr_def PATH_MAX_def spec_matches_def check_blocked_paths_iff

text \<open>
  C1, as amended. \<open>is_path_blocked\<close> blocks exactly when the fail-closed flag is set, or
  the path is not null, the list is not empty, and either some entry of the list matches
  the candidate by the rule of the specification (the candidate equals the entry or
  begins with the entry followed by a slash) or the symlink-aware resolver reports a
  match. The candidate is the normalised path, or the raw path when normalisation fails.
\<close>

theorem is_path_blocked_rule:
  "fst (is_path_blocked h c0 path) =
     (init_failed (ensure_initialized h c0) \<or>
      (case path of
         None \<Rightarrow> False
       | Some p \<Rightarrow>
           blocked_paths (ensure_initialized h c0) \<noteq> [] \<and>
           ((\<exists>Q \<in> set (blocked_paths (ensure_initialized h c0)). spec_matches Q (candidate h p)) \<or>
            is_resolved_path_blocked h (ensure_initialized h c0) (Some (candidate h p)))))"
  by (auto simp: is_path_blocked_def Let_def candidate_def check_blocked_paths_iff
      split: option.splits)

theorem is_path_blocked_rule_witness:
  "blocked_paths (ensure_initialized app_host config0) = [''/app''] \<and>
   fst (is_path_blocked app_host config0 (Some ''/app'')) \<and>
   fst (is_path_blocked app_host config0 (Some ''/app/'')) \<and>
   fst (is_path_blocked app_host config0 (Some ''/app/x'')) \<and>
   fst (is_path_blocked app_host config0 (Some ''/./app/./x'')) \<and>
   fst (is_path_blocked app_host config0 (Some ''/tmp/../app/x'')) \<and>
   \<not> fst (is_path_blocked app_host config0 (Some ''/applications/foo''))"
proof -
  have c: "candidate app_host ''/app'' = ''/app''"
      "candidate app_host ''/app/'' = ''/app''"
      "candidate app_host ''/app/x'' = ''/app/x''"
      "candidate app_host ''/./app/./x'' = ''/app/x''"
      "candidate app_host ''/tmp/../app/x'' = ''/app/x''"
      "candidate app_host ''/applications/foo'' = ''/applications/foo''"
    by (simp_all add: app_host_def path_eval)
  have r: "\<not> is_resolved_path_blocked app_host (ensure_initialized app_host config0)
               (Some ''/applications/foo'')"
    by (simp add: app_host_config) (simp add: app_host_def resolve_eval)
  show ?thesis
    using is_path_blocked_rule [of app_host config0 "Some ''/app''"]
      is_path_blocked_rule [of app_host config0 "Some ''/app/''"]
      is_path_blocked_rule [of app_host config0 "Some ''/app/x''"]
      is_path_blocked_rule [of app_host config0 "Some ''/./app/./x''"]
      is_path_blocked_rule [of app_host config0 "Some ''/tmp/../app/x''"]
      is_path_blocked_rule [of app_host config0 "Some ''/applications/foo''"]
      r
    by (simp add: c app_host_config spec_matches_def)
qed

text \<open>
  The claim as stated fails: with the list \<^verbatim>\<open>/app\<close> and the two links of the
  specification's scenario, \<^verbatim>\<open>/workspace/link2/secret\<close> is blocked although its
  canonical form is itself and neither equals \<^verbatim>\<open>/app\<close> nor begins with
  \<^verbatim>\<open>/app/\<close>.
\<close>

theorem symlink_chain_blocked_without_match:
  "blocked_paths (ensure_initialized chain_host config0) = [''/app''] \<and>
   normalize_path chain_host (Some ''/workspace/link2/secret'') PATH_MAX
     = Some ''/workspace/link2/secret'' \<and>
   \<not> spec_matches ''/app'' ''/workspace/link2/secret'' \<and>
   fst (is_path_blocked chain_host config0 (Some ''/workspace/link2/secret''))"
proof -
  have n: "normalize_path chain_host (Some ''/workspace/link2/secret'') PATH_MAX
             = Some ''/workspace/link2/secret''"
    by (simp add: chain_host_def path_eval)
  have r: "is_resolved_path_blocked chain_host (ensure_initialized chain_host config0)
             (Some ''/workspace/link2/secret'')"
    by (simp add: chain_host_config)
      (simp add: chain_host_def is_resolved_path_blocked_def example_host_def
        chain_realpath_def check_blocked_paths_iff spec_matches_def)
  show ?thesis
    using r by (simp add: n is_path_blocked_def chain_host_config
        check_blocked_paths_iff spec_matches_def)
qed

subsection \<open>Lookups that fail\<close>

lemma spec_matches_prefix: "spec_matches Q x \<Longrightarrow> prefix Q x"
  by (auto simp: spec_matches_def prefix_def)

text \<open>
  When nothing that the original \<^verbatim>\<open>realpath\<close> returns is comparable with an entry of
  the list, the symlink-aware resolver reports no match.
\<close>

lemma resolved_not_blocked:
  assumes "\<And>f p r Q. next_realpath h = Some f \<Longrightarrow> f p = Some r \<Longrightarrow> Q \<in> set (blocked_paths c) \<Longrightarrow>
             \<not> prefix Q r \<and> \<not> prefix r Q"
  shows "\<not> is_resolved_path_blocked h c path"
proof
  assume b: "is_resolved_path_blocked h c path"
  then obtain f where f: "next_realpath h = Some f"
    by (auto simp: is_resolved_path_blocked_def split: option.splits)
  from b f obtain p r x where "f p = Some r"
    and "check_blocked_paths (blocked_paths c) r \<or> check_blocked_paths (blocked_paths c) (r @ x)"
    by (auto simp: is_resolved_path_blocked_def Let_def split: option.splits if_splits)
  then obtain Q where Q: "Q \<in> set (blocked_paths c)" and "prefix Q r \<or> prefix Q (r @ x)"
    and fp: "f p = Some r"
    by (auto simp: check_blocked_paths_iff dest: spec_matches_prefix)
  then have "prefix Q r \<or> prefix r Q"
    by (auto simp: prefix_append)
  with assms [OF f fp Q] show False by simp
qed

lemma fst_is_path_blocked:
  "fst (is_path_blocked h c0 path) =
     (init_failed (ensure_initialized h c0) \<or>
      (case path of
         None \<Rightarrow> False
       | Some p \<Rightarrow>
           blocked_paths (ensure_initialized h c0) \<noteq> [] \<and>
           ((\<exists>Q \<in> set (blocked_paths (ensure_initialized h c0)). spec_matches Q (candidate h p)) \<or>
            is_resolved_path_blocked h (ensure_initialized h c0) (Some (candidate h p)))))"
  by (auto simp: is_path_blocked_def Let_def candidate_def check_blocked_paths_iff
      split: option.splits)

lemma candidate_too_long:
  "char_at p 0 = Some CHR ''/'' \<Longrightarrow> PATH_MAX \<le> length p \<Longrightarrow> candidate h p = take (PATH_MAX - 1) p"
  by (simp add: candidate_def normalize_path_def make_absolute_def)

definition no_realpath_host :: host where
  "no_realpath_host = (example_host (Some ''/app'') chain_realpath no_readlink)\<lparr>next_realpath := None\<rparr>"

definition no_readlink_host :: host where
  "no_readlink_host = (example_host (Some ''/app'') plain_realpath no_readlink)\<lparr>next_readlink := None\<rparr>"

lemma no_realpath_host_config:
  "ensure_initialized no_realpath_host config0 =
     \<lparr>blocked_paths = [''/app''], debug_enabled = False, initialized = True,
      init_failed = False, init_once = True\<rparr>"
  by (simp add: no_realpath_host_def ensure_initialized_def init_blocked_paths_def example_host_def
      config0_def strtok_eval trim_token_def strip_trailing_def MAX_BLOCKED_PATHS_def)

text \<open>
  C3, as amended. When the lookup of the original \<^verbatim>\<open>readlink\<close> fails, a query with a
  relative path and a descriptor other than \<open>AT_FDCWD\<close> (the queries that make the
  lookup) is blocked. When the lookup of the original \<^verbatim>\<open>realpath\<close> fails, the
  symlink-aware resolver reports no match, and \<open>is_path_blocked\<close> decides by the
  fail-closed flag and the textual match alone.
\<close>

theorem lookup_failure_verdicts:
  "(next_readlink h = None \<and> char_at p 0 \<noteq> Some CHR ''/'' \<and> dirfd \<noteq> AT_FDCWD \<longrightarrow>
      fst (is_path_blocked_at h c dirfd (Some p))) \<and>
   (next_realpath h = None \<longrightarrow>
      \<not> is_resolved_path_blocked h c path \<and>
      fst (is_path_blocked h c (Some p)) =
        (init_failed (ensure_initialized h c) \<or>
         (\<exists>Q \<in> set (blocked_paths (ensure_initialized h c)). spec_matches Q (candidate h p))))"
  by (auto simp: is_path_blocked_at_def is_path_blocked_def is_resolved_path_blocked_def Let_def
      candidate_def check_blocked_paths_iff split: option.splits)

theorem lookup_failure_verdicts_witness:
  "next_readlink no_readlink_host = None \<and> char_at ''x'' 0 \<noteq> Some CHR ''/'' \<and> 3 \<noteq> AT_FDCWD \<and>
   fst (is_path_blocked_at no_readlink_host config0 3 (Some ''x'')) \<and>
   next_realpath no_realpath_host = None \<and>
   fst (is_path_blocked no_realpath_host config0 (Some ''/tmp/../app/x'')) \<and>
   \<not> fst (is_path_blocked no_realpath_host config0 (Some ''/tmp/x''))"
proof -
  have a: "next_readlink no_readlink_host = None" "char_at ''x'' 0 \<noteq> Some CHR ''/''"
      "3 \<noteq> AT_FDCWD" "next_realpath no_realpath_host = None"
    by (simp_all add: no_readlink_host_def no_realpath_host_def example_host_def char_at_def
        AT_FDCWD_def)
  have c: "candidate no_realpath_host ''/tmp/../app/x'' = ''/app/x''"
      "candidate no_realpath_host ''/tmp/x'' = ''/tmp/x''"
    by (simp_all add: no_realpath_host_def path_eval)
  show ?thesis
    using lookup_failure_verdicts [of no_readlink_host "''x''" 3 config0 None]
      lookup_failure_verdicts [of no_realpath_host "''/tmp/../app/x''" 3 config0 None]
      lookup_failure_verdicts [of no_realpath_host "''/tmp/x''" 3 config0 None] a
    by (simp add: c no_realpath_host_config spec_matches_def)
qed

text \<open>
  The claim as stated fails: when the lookup of the original \<^verbatim>\<open>realpath\<close> fails, the
  path \<^verbatim>\<open>/workspace/link2/secret\<close> of the symlink scenario is allowed.
\<close>

theorem realpath_lookup_failure_allows:
  "next_realpath no_realpath_host = None \<and>
   blocked_paths (ensure_initialized no_realpath_host config0) = [''/app''] \<and>
   \<not> init_failed (ensure_initialized no_realpath_host config0) \<and>
   \<not> fst (is_path_blocked no_realpath_host config0 (Some ''/workspace/link2/secret''))"
proof -
  have n: "normalize_path no_realpath_host (Some ''/workspace/link2/secret'') PATH_MAX
             = Some ''/workspace/link2/secret''"
    by (simp add: no_realpath_host_def path_eval)
  have r: "next_realpath no_realpath_host = None"
    by (simp add: no_realpath_host_def example_host_def)
  show ?thesis
    by (simp add: r n is_path_blocked_def no_realpath_host_config is_resolved_path_blocked_def
        check_blocked_paths_iff spec_matches_def)
qed

subsection \<open>Paths relative to a directory descriptor\<close>

text \<open>A host in which descriptor 3 is the directory \<^verbatim>\<open>/tmp\<close> and no other is open.\<close>

definition fd3_readlink :: "string \<Rightarrow> string option" where
  "fd3_readlink p = (if p = ''/proc/self/fd/3'' then Some ''/tmp'' else None)"

definition fd_host :: host where
  "fd_host = example_host (Some ''/app'') plain_realpath fd3_readlink"

lemma fd_host_config:
  "ensure_initialized fd_host config0 =
     \<lparr>blocked_paths = [''/app''], debug_enabled = False, initialized = True,
      init_failed = False, init_once = True\<rparr>"
  by (simp add: fd_host_def app_config)

lemma digits_of_int_examples: "digits_of_int 3 = ''3''" "digits_of_int 9 = ''9''"
  by (simp_all add: digits_of_int_def digits_of_nat.simps)

text \<open>
  C5, as amended. For a path that is not null: an absolute path or the descriptor
  \<open>AT_FDCWD\<close> gives the verdict of \<open>is_path_blocked\<close> on the path itself, for which a
  relative path is normalised as the working directory, a slash and the path are.
  Otherwise the descriptor is read through the original \<^verbatim>\<open>readlink\<close> at its entry
  under \<^verbatim>\<open>/proc/self/fd\<close>; when the lookup or the read fails the query is blocked; when
  the read succeeds the verdict is that of \<open>is_path_blocked\<close> on the directory, a slash
  and the path if that is shorter than \<open>PATH_MAX\<close>, and blocked if it is not.
\<close>

theorem is_path_blocked_at_cases:
  "(char_at p 0 = Some CHR ''/'' \<or> dirfd = AT_FDCWD \<longrightarrow>
      is_path_blocked_at h c dirfd (Some p) = is_path_blocked h c (Some p)) \<and>
   (char_at p 0 \<noteq> Some CHR ''/'' \<and> cwd h = Some d \<and> char_at d 0 = Some CHR ''/'' \<and>
    length d + 1 + length p < PATH_MAX \<longrightarrow>
      normalize_path h (Some p) PATH_MAX = normalize_path h (Some (d @ ''/'' @ p)) PATH_MAX) \<and>
   (char_at p 0 \<noteq> Some CHR ''/'' \<and> dirfd \<noteq> AT_FDCWD \<longrightarrow>
      (case next_readlink h of
         None \<Rightarrow> is_path_blocked_at h c dirfd (Some p) = (True, c)
       | Some orig_readlink \<Rightarrow>
           (case orig_readlink (''/proc/self/fd/'' @ digits_of_int dirfd) of
              None \<Rightarrow> is_path_blocked_at h c dirfd (Some p) = (True, c)
            | Some t \<Rightarrow>
                is_path_blocked_at h c dirfd (Some p) =
                  (if length (take (PATH_MAX - 1) t) + 1 + length p < PATH_MAX
                   then is_path_blocked h c (Some (take (PATH_MAX - 1) t @ ''/'' @ p))
                   else (True, c)))))"
proof (intro conjI impI)
  assume "char_at p 0 = Some CHR ''/'' \<or> dirfd = AT_FDCWD"
  then show "is_path_blocked_at h c dirfd (Some p) = is_path_blocked h c (Some p)"
    by (auto simp: is_path_blocked_at_def)
next
  assume a: "char_at p 0 \<noteq> Some CHR ''/'' \<and> cwd h = Some d \<and> char_at d 0 = Some CHR ''/'' \<and>
    length d + 1 + length p < PATH_MAX"
  then have "char_at (d @ ''/'' @ p) 0 = Some CHR ''/''"
    by (cases d) (auto simp: char_at_def)
  with a have "make_absolute h p = make_absolute h (d @ ''/'' @ p)"
    by (simp add: make_absolute_def getcwd_def)
  then show "normalize_path h (Some p) PATH_MAX = normalize_path h (Some (d @ ''/'' @ p)) PATH_MAX"
    by (simp add: normalize_path_def)
next
  assume "char_at p 0 \<noteq> Some CHR ''/'' \<and> dirfd \<noteq> AT_FDCWD"
  then show "case next_readlink h of
         None \<Rightarrow> is_path_blocked_at h c dirfd (Some p) = (True, c)
       | Some orig_readlink \<Rightarrow>
           (case orig_readlink (''/proc/self/fd/'' @ digits_of_int dirfd) of
              None \<Rightarrow> is_path_blocked_at h c dirfd (Some p) = (True, c)
            | Some t \<Rightarrow>
                is_path_blocked_at h c dirfd (Some p) =
                  (if length (take (PATH_MAX - 1) t) + 1 + length p < PATH_MAX
                   then is_path_blocked h c (Some (take (PATH_MAX - 1) t @ ''/'' @ p))
                   else (True, c)))"
    by (auto simp: is_path_blocked_at_def Let_def split: option.splits)
qed

theorem is_path_blocked_at_cases_witness:
  "is_path_blocked_at fd_host config0 7 (Some ''/app/x'')
     = is_path_blocked fd_host config0 (Some ''/app/x'') \<and>
   is_path_blocked_at fd_host config0 AT_FDCWD (Some ''../app/x'')
     = is_path_blocked fd_host config0 (Some ''../app/x'') \<and>
   normalize_path fd_host (Some ''../app/x'') PATH_MAX
     = normalize_path fd_host (Some ''/workspace/../app/x'') PATH_MAX \<and>
   fst (is_path_blocked_at fd_host config0 9 (Some ''x'')) \<and>
   is_path_blocked_at fd_host config0 3 (Some ''x'')
     = is_path_blocked fd_host config0 (Some ''/tmp/x'') \<and>
   \<not> fst (is_path_blocked_at fd_host config0 3 (Some ''x'')) \<and>
   fst (is_path_blocked_at fd_host config0 3 (Some ''../app/x''))"
proof -
  have h: "next_readlink fd_host = Some fd3_readlink" "cwd fd_host = Some ''/workspace''"
    by (simp_all add: fd_host_def example_host_def)
  have r: "fd3_readlink ''/proc/self/fd/3'' = Some ''/tmp''" "fd3_readlink ''/proc/self/fd/9'' = None"
    by (simp_all add: fd3_readlink_def)
  have n: "normalize_path fd_host (Some ''/tmp/x'') PATH_MAX = Some ''/tmp/x''"
      "normalize_path fd_host (Some ''/tmp/../app/x'') PATH_MAX = Some ''/app/x''"
    by (simp_all add: fd_host_def path_eval)
  have x: "\<not> is_resolved_path_blocked fd_host (ensure_initialized fd_host config0) (Some ''/tmp/x'')"
    by (simp add: fd_host_config) (simp add: fd_host_def resolve_eval)
  have b: "\<not> fst (is_path_blocked fd_host config0 (Some ''/tmp/x''))"
      "fst (is_path_blocked fd_host config0 (Some ''/tmp/../app/x''))"
    using x by (simp_all add: is_path_blocked_def n fd_host_config check_blocked_paths_iff
        spec_matches_def)
  show ?thesis
    using is_path_blocked_at_cases [where p = "''/app/x''" and dirfd = 7 and h = fd_host
        and c = config0 and d = "''/workspace''"]
      is_path_blocked_at_cases [where p = "''../app/x''" and dirfd = AT_FDCWD and h = fd_host
        and c = config0 and d = "''/workspace''"]
      is_path_blocked_at_cases [where p = "''x''" and dirfd = 9 and h = fd_host
        and c = config0 and d = "''/workspace''"]
      is_path_blocked_at_cases [where p = "''x''" and dirfd = 3 and h = fd_host
        and c = config0 and d = "''/workspace''"]
      is_path_blocked_at_cases [where p = "''../app/x''" and dirfd = 3 and h = fd_host
        and c = config0 and d = "''/workspace''"] b
    by (simp add: h r digits_of_int_examples char_at_def AT_FDCWD_def PATH_MAX_def)
qed

text \<open>
  The claim as stated fails: descriptor 3 is read as \<^verbatim>\<open>/tmp\<close>, and for a relative
  path of 4096 characters the query is blocked, while \<open>is_path_blocked\<close> allows the
  concatenation of the directory, a slash and the path.
\<close>

theorem descriptor_overflow_blocked:
  "fd3_readlink (''/proc/self/fd/'' @ digits_of_int 3) = Some ''/tmp'' \<and>
   fst (is_path_blocked_at fd_host config0 3 (Some (replicate 4096 CHR ''a''))) \<and>
   \<not> fst (is_path_blocked fd_host config0 (Some (''/tmp'' @ ''/'' @ replicate 4096 CHR ''a'')))"
proof -
  have r: "fd3_readlink (''/proc/self/fd/'' @ digits_of_int 3) = Some ''/tmp''"
    by (simp add: digits_of_int_examples fd3_readlink_def)
  have h: "next_readlink fd_host = Some fd3_readlink"
    by (simp add: fd_host_def example_host_def)
  have a: "fst (is_path_blocked_at fd_host config0 3 (Some (replicate 4096 CHR ''a'')))"
    by (simp add: is_path_blocked_at_def h digits_of_int_examples fd3_readlink_def char_at_def
        AT_FDCWD_def PATH_MAX_def)
  define P where "P = ''/tmp'' @ ''/'' @ replicate 4096 CHR ''a''"
  have cand: "candidate fd_host P = take (PATH_MAX - 1) P"
    by (rule candidate_too_long) (simp_all add: P_def char_at_def PATH_MAX_def)
  have m: "\<not> spec_matches ''/app'' (take (PATH_MAX - 1) P)"
    by (simp add: P_def PATH_MAX_def spec_matches_def)
  have x: "\<not> is_resolved_path_blocked fd_host (ensure_initialized fd_host config0) path" for path
    unfolding fd_host_config
    by (rule resolved_not_blocked)
      (auto simp: fd_host_def example_host_def plain_realpath_def split: if_splits)
  have nb: "\<not> fst (is_path_blocked fd_host config0 (Some P))"
    using fst_is_path_blocked [of fd_host config0 "Some P"] x m
    by (simp add: cand fd_host_config)
  have b: "\<not> fst (is_path_blocked fd_host config0
                  (Some (''/tmp'' @ ''/'' @ replicate 4096 CHR ''a'')))"
    using nb unfolding P_def .
  from r a b show ?thesis by simp
qed

subsection \<open>Loading the list\<close>

text \<open>
  The entries that the token loop stores when the array has room: the trimmed tokens that
  are not empty and whose copy could be allocated; \<open>i\<close> is the index of the first token.
\<close>

fun kept :: "host \<Rightarrow> nat \<Rightarrow> string list \<Rightarrow> string list" where
  "kept h i [] = []"
| "kept h i (t # ts) =
     (if trim_token t \<noteq> [] \<and> token_strdup_ok h i then trim_token t # kept h (Suc i) ts
      else kept h (Suc i) ts)"

text \<open>The value that \<open>init_blocked_paths\<close> parses.\<close>

definition configured_paths :: "host \<Rightarrow> string" where
  "configured_paths h =
     (case env_SANDBOX_BLOCKED_PATHS h of
        Some p \<Rightarrow> p
      | None \<Rightarrow> DEFAULT_BLOCKED_PATHS)"

lemma init_loop_kept:
  "length bp \<le> MAX_BLOCKED_PATHS \<Longrightarrow>
   init_loop h i toks bp = bp @ take (MAX_BLOCKED_PATHS - length bp) (kept h i toks)"
proof (induction toks arbitrary: i bp)
  case Nil
  show ?case by simp
next
  case (Cons t toks)
  show ?case
  proof (cases "length bp < MAX_BLOCKED_PATHS")
    case False
    with Cons.prems show ?thesis by simp
  next
    case True
    then have s: "MAX_BLOCKED_PATHS - length bp = Suc (MAX_BLOCKED_PATHS - Suc (length bp))"
      by simp
    from True have l: "length (bp @ [trim_token t]) \<le> MAX_BLOCKED_PATHS"
      by simp
    show ?thesis
      using True Cons.IH [OF l, of "Suc i"] Cons.IH [OF Cons.prems, of "Suc i"]
      by (simp add: Let_def s)
  qed
qed

lemma kept_filter:
  "(\<And>j. token_strdup_ok h j) \<Longrightarrow> kept h i toks = filter (\<lambda>t. t \<noteq> []) (map trim_token toks)"
  by (induction toks arbitrary: i) auto




lemma set_kept: "set (kept h i toks) \<subseteq> trim_token ` set toks - {[]}"
  by (induction toks arbitrary: i) auto

lemma strip_trailing_Nil_iff: "strip_trailing ch s = [] \<longleftrightarrow> s = []"
  by (cases s) (simp_all add: strip_trailing_def)

lemma hd_strip_trailing: "hd (strip_trailing ch s) = hd s"
  by (cases s) (simp_all add: strip_trailing_def)

lemma set_strip_trailing: "set (strip_trailing ch s) \<subseteq> set s"
  by (cases s) (auto simp: strip_trailing_def dest: set_dropWhileD)

lemma last_strip_trailing:
  "last (strip_trailing ch s) = ch \<Longrightarrow> length (strip_trailing ch s) \<le> 1"
proof (cases s)
  case Nil
  then show ?thesis by (simp add: strip_trailing_def)
next
  case (Cons x xs)
  assume l: "last (strip_trailing ch s) = ch"
  define r where "r = dropWhile (\<lambda>c. c = ch) (rev xs)"
  have st: "strip_trailing ch s = x # rev r"
    by (simp add: Cons strip_trailing_def r_def)
  have "r = []"
  proof (rule ccontr)
    assume ne: "r \<noteq> []"
    then have "hd r \<noteq> ch"
      unfolding r_def using hd_dropWhile [of "\<lambda>c. c = ch" "rev xs"] by blast
    moreover from ne l have "last (rev r) = ch"
      by (simp add: st)
    ultimately show False
      using ne by (simp add: last_rev)
  qed
  then show ?thesis
    by (simp add: st)
qed

lemma trim_token_props:
  assumes "trim_token t \<noteq> []"
  shows "hd (trim_token t) \<noteq> CHR '' '' \<and> set (trim_token t) \<subseteq> set t \<and>
         (last (trim_token t) = CHR ''/'' \<longrightarrow> trim_token t = ''/'')"
proof -
  define u where "u = dropWhile (\<lambda>c. c = CHR '' '') t"
  from assms have une: "u \<noteq> []"
    by (simp add: trim_token_def u_def strip_trailing_Nil_iff)
  then have "hd u \<noteq> CHR '' ''"
    unfolding u_def using hd_dropWhile [of "\<lambda>c. c = CHR '' ''" t] by simp
  then have h: "hd (trim_token t) \<noteq> CHR '' ''"
    by (simp add: trim_token_def u_def [symmetric] hd_strip_trailing)
  have "set u \<subseteq> set t"
    unfolding u_def by (auto dest: set_dropWhileD)
  with set_strip_trailing [of "CHR ''/''" "strip_trailing CHR '' '' u"]
    set_strip_trailing [of "CHR '' ''" u]
  have s: "set (trim_token t) \<subseteq> set t"
    by (auto simp: trim_token_def u_def [symmetric])
  have "trim_token t = ''/''" if l: "last (trim_token t) = CHR ''/''"
  proof -
    from l have "length (trim_token t) \<le> 1"
      unfolding trim_token_def by (rule last_strip_trailing)
    with assms obtain x where x: "trim_token t = [x]"
      by (cases "trim_token t") auto
    with l show ?thesis by simp
  qed
  with h s show ?thesis by blast
qed

lemma dropWhile_replicate_append:
  "dropWhile (\<lambda>c. c = ch) (replicate n ch @ R) = dropWhile (\<lambda>c. c = ch) R"
  by (induction n) auto

lemma strip_trailing_replicate:
  assumes "s \<noteq> []" and "last s \<noteq> ch"
  shows "strip_trailing ch (s @ replicate n ch) = s"
proof -
  from assms(1) obtain x xs where s: "s = x # xs"
    by (cases s) auto
  have "dropWhile (\<lambda>c. c = ch) (rev xs) = rev xs"
  proof (cases "xs = []")
    case True
    then show ?thesis by simp
  next
    case False
    then have "hd (rev xs) = last xs"
      by (simp add: hd_rev)
    moreover from False s have "last s = last xs"
      by simp
    ultimately have "hd (rev xs) \<noteq> ch"
      using assms(2) by simp
    then show ?thesis
      by (simp only: dropWhile_eq_self_iff) simp
  qed
  then show ?thesis
    by (simp add: s strip_trailing_def dropWhile_replicate_append)
qed

lemma trim_token_shape:
  assumes "core \<noteq> []" and "hd core \<noteq> CHR '' ''" and "last core \<noteq> CHR '' ''"
    and "last core \<noteq> CHR ''/''"
  shows "trim_token (replicate a CHR '' '' @ core @ replicate b CHR ''/'' @ replicate k CHR '' '')
           = core"
proof -
  from assms(1,2) have d: "dropWhile (\<lambda>c. c = CHR '' '')
        (replicate a CHR '' '' @ core @ replicate b CHR ''/'' @ replicate k CHR '' '')
      = (core @ replicate b CHR ''/'') @ replicate k CHR '' ''"
    unfolding dropWhile_replicate_append by (cases core) auto
  have l: "last (core @ replicate b CHR ''/'') \<noteq> CHR '' ''"
    using assms(3) by (cases b) auto
  have "strip_trailing CHR '' '' ((core @ replicate b CHR ''/'') @ replicate k CHR '' '')
          = core @ replicate b CHR ''/''"
    using assms(1) l by (intro strip_trailing_replicate) auto
  moreover have "strip_trailing CHR ''/'' (core @ replicate b CHR ''/'') = core"
    using assms(1,4) by (rule strip_trailing_replicate)
  ultimately show ?thesis
    unfolding trim_token_def d by simp
qed

lemma blocked_paths_init:
  "blocked_paths (init_blocked_paths h config0) =
     (if paths_strdup_ok h
      then take MAX_BLOCKED_PATHS (kept h 0 (strtok_all CHR '':'' (configured_paths h)))
      else [])"
  by (simp add: init_blocked_paths_def config0_def configured_paths_def init_loop_kept)

lemmas init_eval = blocked_paths_init configured_paths_def example_host_def strtok_eval
  trim_token_def strip_trailing_def MAX_BLOCKED_PATHS_def

text \<open>
  C7, as amended. After configuration loading the list has at most 64 entries, and every
  entry is non-empty, has no colon, does not begin with a space, and ends with a slash
  only if it is the single slash; nothing makes an entry absolute. When every allocation
  succeeds the list is the first 64 of the non-empty trimmed tokens of the value split at
  colons. Trimming drops leading spaces, then trailing spaces, then trailing slashes, so
  a token of spaces, a core, slashes and spaces is stored as the core.
\<close>

theorem init_blocked_paths_entries:
  "length (blocked_paths (init_blocked_paths h config0)) \<le> MAX_BLOCKED_PATHS \<and>
   (\<forall>p \<in> set (blocked_paths (init_blocked_paths h config0)).
      p \<noteq> [] \<and> CHR '':'' \<notin> set p \<and> hd p \<noteq> CHR '' '' \<and> (last p = CHR ''/'' \<longrightarrow> p = ''/'')) \<and>
   (paths_strdup_ok h \<and> (\<forall>i. token_strdup_ok h i) \<longrightarrow>
      blocked_paths (init_blocked_paths h config0) =
        take MAX_BLOCKED_PATHS
          (filter (\<lambda>t. t \<noteq> []) (map trim_token (strtok_all CHR '':'' (configured_paths h))))) \<and>
   (core \<noteq> [] \<and> hd core \<noteq> CHR '' '' \<and> last core \<noteq> CHR '' '' \<and> last core \<noteq> CHR ''/'' \<longrightarrow>
      trim_token (replicate a CHR '' '' @ core @ replicate b CHR ''/'' @ replicate k CHR '' '')
        = core)"
proof (intro conjI ballI impI)
  show "length (blocked_paths (init_blocked_paths h config0)) \<le> MAX_BLOCKED_PATHS"
    by (simp add: blocked_paths_init)
next
  fix p
  assume "p \<in> set (blocked_paths (init_blocked_paths h config0))"
  then have "p \<in> set (kept h 0 (strtok_all CHR '':'' (configured_paths h)))"
    by (auto simp: blocked_paths_init split: if_splits dest: in_set_takeD)
  with set_kept [of h 0 "strtok_all CHR '':'' (configured_paths h)"]
  obtain t where t: "t \<in> set (strtok_all CHR '':'' (configured_paths h))"
    and p: "p = trim_token t" and ne: "trim_token t \<noteq> []"
    by auto
  from strtok_all_tokens [OF t] trim_token_props [OF ne]
  have "CHR '':'' \<notin> set p" "hd p \<noteq> CHR '' ''" "last p = CHR ''/'' \<longrightarrow> p = ''/''"
    by (auto simp: p)
  with ne p show "p \<noteq> []" "CHR '':'' \<notin> set p" "hd p \<noteq> CHR '' ''"
    by simp_all
  assume "last p = CHR ''/''"
  with \<open>last p = CHR ''/'' \<longrightarrow> p = ''/''\<close> show "p = ''/''"
    by simp
next
  assume "paths_strdup_ok h \<and> (\<forall>i. token_strdup_ok h i)"
  then show "blocked_paths (init_blocked_paths h config0) =
        take MAX_BLOCKED_PATHS
          (filter (\<lambda>t. t \<noteq> []) (map trim_token (strtok_all CHR '':'' (configured_paths h))))"
    by (simp add: blocked_paths_init kept_filter)
next
  assume "core \<noteq> [] \<and> hd core \<noteq> CHR '' '' \<and> last core \<noteq> CHR '' '' \<and> last core \<noteq> CHR ''/''"
  then show "trim_token (replicate a CHR '' '' @ core @ replicate b CHR ''/'' @ replicate k CHR '' '')
        = core"
    by (simp add: trim_token_shape)
qed

definition spaced_host :: host where
  "spaced_host = example_host (Some '' /app/ :: /data//  :x:  '') plain_realpath no_readlink"

theorem init_blocked_paths_entries_witness:
  "paths_strdup_ok spaced_host \<and>
   configured_paths spaced_host = '' /app/ :: /data//  :x:  '' \<and>
   blocked_paths (init_blocked_paths spaced_host config0) = [''/app'', ''/data'', ''x''] \<and>
   trim_token '' /app/ '' = ''/app''"
proof -
  have a: "paths_strdup_ok spaced_host \<and> (\<forall>i. token_strdup_ok spaced_host i)"
    by (simp add: spaced_host_def example_host_def)
  have c: "configured_paths spaced_host = '' /app/ :: /data//  :x:  ''"
    by (simp add: spaced_host_def configured_paths_def example_host_def)
  have t: "''/app'' \<noteq> [] \<and> hd ''/app'' \<noteq> CHR '' '' \<and> last ''/app'' \<noteq> CHR '' '' \<and>
           last ''/app'' \<noteq> CHR ''/''"
    by simp
  from init_blocked_paths_entries [of spaced_host "''/app''" 1 1 1] a t
  have "blocked_paths (init_blocked_paths spaced_host config0) =
          take MAX_BLOCKED_PATHS (filter (\<lambda>t. t \<noteq> [])
            (map trim_token (strtok_all CHR '':'' (configured_paths spaced_host))))"
    and "trim_token (replicate 1 CHR '' '' @ ''/app'' @ replicate 1 CHR ''/'' @ replicate 1 CHR '' '')
           = ''/app''"
    by blast+
  then show ?thesis
    using a by (simp add: c strtok_eval trim_token_def strip_trailing_def MAX_BLOCKED_PATHS_def)
qed

text \<open>
  The claim as stated fails: from the value \<^verbatim>\<open>data:/:/app/ /\<close> the list holds
  \<^verbatim>\<open>data\<close>, which is not absolute, the single slash, and an entry that ends with a
  space.
\<close>

definition relative_host :: host where
  "relative_host = example_host (Some ''data:/:/app/ /'') plain_realpath no_readlink"

theorem relative_and_slash_entries_stored:
  "blocked_paths (init_blocked_paths relative_host config0) = [''data'', ''/'', ''/app/ ''] \<and>
   char_at ''data'' 0 \<noteq> Some CHR ''/'' \<and>
   last ''/'' = CHR ''/'' \<and>
   last ''/app/ '' = CHR '' ''"
  by (simp add: relative_host_def init_eval char_at_def)

subsection \<open>An entry that cannot be allocated\<close>




subsection \<open>Blocked calls\<close>















text \<open>
  Worlds for examples. The filesystem is the list of the calls that reached an original
  function, the last first. \<open>recording_libc\<close> is an original that succeeds;
  \<open>missing_libc\<close> is the original \<^verbatim>\<open>realpath\<close> on a file that does not exist: it
  returns \<open>NULL\<close> and sets \<^verbatim>\<open>errno\<close> to \<open>ENOENT\<close>; \<open>resolved_libc\<close> is the original
  \<^verbatim>\<open>realpath\<close> on a file that resolves to \<^verbatim>\<open>/app/secret\<close>.
\<close>

definition world0 :: "call list world" where
  "world0 = \<lparr>errno = 0, cfg = config0, fs = []\<rparr>"

definition recording_libc :: "call list libc" where
  "recording_libc cl w = (RInt 0, w\<lparr>fs := cl # fs w\<rparr>)"







subsection \<open>Targets of symbolic links\<close>

text \<open>
  The directory in which \<open>is_symlink_target_blocked\<close> resolves a relative target: the
  link path up to its last slash, the root for a link in the root, the working directory
  for a link path with no slash.
\<close>

definition link_directory :: "host \<Rightarrow> string \<Rightarrow> string option" where
  "link_directory h l =
     (case strrchr l CHR ''/'' of
        None \<Rightarrow> getcwd h PATH_MAX
      | Some last_slash \<Rightarrow> if last_slash = 0 then Some ''/'' else Some (take last_slash l))"

text \<open>
  What \<^verbatim>\<open>symlink\<close> does for a relative target: it is denied when the oracle blocks the
  link path or the composite of the link's directory, a slash and the target, and also
  when the link path or the composite does not fit \<open>PATH_MAX\<close> or the directory is not
  known.
\<close>

lemma is_path_blocked_pair:
  "is_path_blocked h c path = (fst (is_path_blocked h c path), ensure_initialized h c)"
  by (simp add: prod_eq_iff snd_is_path_blocked)

lemma symlink_relative_target:
  assumes "char_at t 0 \<noteq> Some CHR ''/''"
  shows "symlink h orig (Some t) (Some l) w =
     (if fst (is_path_blocked h (cfg w) (Some l)) \<or> PATH_MAX \<le> length l \<or>
         (case link_directory h l of
            None \<Rightarrow> True
          | Some d \<Rightarrow> PATH_MAX \<le> length d + 1 + length t \<or>
                      fst (is_path_blocked h (cfg w) (Some (d @ ''/'' @ t))))
      then Some (RInt (- 1), w\<lparr>cfg := ensure_initialized h (cfg w), errno := EACCES\<rparr>)
      else Some (orig (Call_symlink (Some t) (Some l)) (w\<lparr>cfg := ensure_initialized h (cfg w)\<rparr>)))"
proof -
  define c where "c = ensure_initialized h (cfg w)"
  have l: "is_path_blocked h (cfg w) (Some l) = (fst (is_path_blocked h (cfg w) (Some l)), c)"
    using snd_is_path_blocked [of h "cfg w" "Some l"] unfolding c_def
    by (cases "is_path_blocked h (cfg w) (Some l)") simp
  have d: "is_path_blocked h c (Some x) = (fst (is_path_blocked h (cfg w) (Some x)), c)" for x
    using snd_is_path_blocked [of h "cfg w" "Some x"]
    unfolding c_def is_path_blocked_ensure
    by (cases "is_path_blocked h (cfg w) (Some x)") simp
  show ?thesis
    unfolding c_def [symmetric]
    by (subst symlink_def, subst l)
      (auto simp: check_symlink_target_def is_symlink_target_blocked_def link_directory_def
        assms d BLOCK_AND_RETURN_def split: option.splits)
qed

text \<open>
  C6. In the scenario of the specification (list \<^verbatim>\<open>/app\<close>, link
  \<^verbatim>\<open>/workspace/link3\<close>, target \<^verbatim>\<open>../app/x\<close>) both \<^verbatim>\<open>symlink\<close> and \<^verbatim>\<open>symlinkat\<close>
  return \<open>-1\<close> with \<open>EACCES\<close> and no call reaches the original. For an absolute link
  path of 4097 characters in \<^verbatim>\<open>/tmp\<close> and the same target, the oracle blocks the
  composite \<^verbatim>\<open>/tmp/../app/x\<close> and \<^verbatim>\<open>symlink\<close> denies the call, but \<^verbatim>\<open>symlinkat\<close>
  skips the check of the target and calls the original.
\<close>

theorem symlinkat_long_linkpath_forwarded:
  "symlink app_host recording_libc (Some ''../app/x'') (Some ''/workspace/link3'') world0 =
     Some (RInt (- 1), world0\<lparr>cfg := ensure_initialized app_host config0, errno := EACCES\<rparr>) \<and>
   symlinkat app_host recording_libc (Some ''../app/x'') AT_FDCWD (Some ''/workspace/link3'') world0 =
     Some (RInt (- 1), world0\<lparr>cfg := ensure_initialized app_host config0, errno := EACCES\<rparr>) \<and>
   link_directory app_host (''/tmp/'' @ replicate 4092 CHR ''a'') = Some ''/tmp'' \<and>
   fst (is_path_blocked app_host config0 (Some (''/tmp'' @ ''/'' @ ''../app/x''))) \<and>
   symlink app_host recording_libc (Some ''../app/x'')
       (Some (''/tmp/'' @ replicate 4092 CHR ''a'')) world0 =
     Some (RInt (- 1), world0\<lparr>cfg := ensure_initialized app_host config0, errno := EACCES\<rparr>) \<and>
   symlinkat app_host recording_libc (Some ''../app/x'') AT_FDCWD
       (Some (''/tmp/'' @ replicate 4092 CHR ''a'')) world0 =
     Some (RInt 0, world0\<lparr>cfg := ensure_initialized app_host config0,
                          fs := [Call_symlinkat (Some ''../app/x'') AT_FDCWD
                                   (Some (''/tmp/'' @ replicate 4092 CHR ''a''))]\<rparr>)"
proof -
  define C where "C = ensure_initialized app_host config0"
  define L where "L = ''/tmp/'' @ replicate 4092 CHR ''a''"
  have t: "char_at ''../app/x'' 0 \<noteq> Some CHR ''/''"
    by (simp add: char_at_def)
  have x: "\<not> is_resolved_path_blocked app_host C path" for path
    unfolding C_def app_host_config
    by (rule resolved_not_blocked)
      (auto simp: app_host_def example_host_def plain_realpath_def split: if_splits)
  have cand: "candidate app_host ''/workspace/link3'' = ''/workspace/link3''"
      "candidate app_host ''/workspace/../app/x'' = ''/app/x''"
      "candidate app_host ''/tmp/../app/x'' = ''/app/x''"
    by (simp_all add: app_host_def path_eval)
  have L0: "char_at L 0 = Some CHR ''/''" and Ll: "length L = 4097"
    by (simp_all add: L_def char_at_def)
  have candL: "candidate app_host L = take (PATH_MAX - 1) L"
    by (rule candidate_too_long) (simp_all add: L0 Ll PATH_MAX_def)
  have mL: "\<not> spec_matches ''/app'' (take (PATH_MAX - 1) L)"
    by (simp add: L_def PATH_MAX_def spec_matches_def)
  have v: "fst (is_path_blocked app_host config0 (Some ''/workspace/link3'')) = False"
      "fst (is_path_blocked app_host config0 (Some ''/workspace/../app/x'')) = True"
      "fst (is_path_blocked app_host config0 (Some ''/tmp/../app/x'')) = True"
      "fst (is_path_blocked app_host config0 (Some L)) = False"
    using x mL
    by (simp_all add: fst_is_path_blocked cand candL C_def [symmetric])
      (simp_all add: C_def app_host_config spec_matches_def)
  have ld: "link_directory app_host ''/workspace/link3'' = Some ''/workspace''"
    by (simp add: link_directory_def strrchr_def)
  have tw: "takeWhile (\<lambda>x. x \<noteq> CHR ''/'') (replicate n CHR ''a'' @ R) =
            replicate n CHR ''a'' @ takeWhile (\<lambda>x. x \<noteq> CHR ''/'') R" for n R
    by (induction n) auto
  have "strrchr L CHR ''/'' = Some 4"
    by (simp add: L_def strrchr_def tw)
  then have ldL: "link_directory app_host L = Some ''/tmp''"
    by (simp add: link_directory_def L_def)
  have s1: "symlink app_host recording_libc (Some ''../app/x'') (Some ''/workspace/link3'') world0 =
     Some (RInt (- 1), world0\<lparr>cfg := C, errno := EACCES\<rparr>)"
    by (subst symlink_relative_target [OF t])
      (simp add: world0_def v ld PATH_MAX_def C_def)
  have s2: "symlink app_host recording_libc (Some ''../app/x'') (Some L) world0 =
     Some (RInt (- 1), world0\<lparr>cfg := C, errno := EACCES\<rparr>)"
    by (subst symlink_relative_target [OF t])
      (simp add: world0_def v Ll PATH_MAX_def C_def)
  have at1: "is_path_blocked_at app_host config0 AT_FDCWD (Some ''/workspace/link3'') = (False, C)"
    using snd_is_path_blocked [of app_host config0 "Some ''/workspace/link3''"] v(1)
    by (cases "is_path_blocked app_host config0 (Some ''/workspace/link3'')")
      (simp add: is_path_blocked_at_def char_at_def C_def)
  have at2: "is_path_blocked_at app_host config0 AT_FDCWD (Some L) = (False, C)"
    using snd_is_path_blocked [of app_host config0 "Some L"] v(4)
    by (cases "is_path_blocked app_host config0 (Some L)")
      (simp add: is_path_blocked_at_def L0 C_def)
  have C2: "ensure_initialized app_host C = C"
    by (simp add: C_def ensure_initialized_idem)
  have fC: "fst (is_path_blocked app_host C p) = fst (is_path_blocked app_host config0 p)" for p
    unfolding C_def by (simp add: is_path_blocked_ensure)
  have b: "is_path_blocked app_host C (Some ''/workspace/../app/x'') = (True, C)"
    by (subst is_path_blocked_pair) (simp add: fC v C2)
  have s3: "symlinkat app_host recording_libc (Some ''../app/x'') AT_FDCWD
              (Some ''/workspace/link3'') world0 =
     Some (RInt (- 1), world0\<lparr>cfg := C, errno := EACCES\<rparr>)"
    unfolding symlinkat_def
    by (simp add: world0_def at1 absolute_linkpath_def check_symlink_target_def
        is_symlink_target_blocked_def BLOCK_AND_RETURN_def char_at_def strrchr_def
        PATH_MAX_def b)
  have s4: "symlinkat app_host recording_libc (Some ''../app/x'') AT_FDCWD (Some L) world0 =
     Some (RInt 0, world0\<lparr>cfg := C, fs := [Call_symlinkat (Some ''../app/x'') AT_FDCWD (Some L)]\<rparr>)"
    unfolding symlinkat_def
    by (simp add: world0_def at2 t absolute_linkpath_def L0 Ll PATH_MAX_def recording_libc_def)
  from s1 s3 ldL v(3) s2 s4 show ?thesis
    unfolding L_def C_def by simp
qed

end
